theory Spec2Isabelle
  imports Main "HOL-Library.Word" "HOL-Library.Char_ord" "HOL-Library.List_Lexorder"
    "HOL-Library.Product_Lexorder"
begin

text \<open>
  A shallow embedding of the chat bot's \<open>!roms\<close> command (\<open>main.go\<close>): the term parser
  \<open>parseArgs\<close>, the filter compiler \<open>buildSQLQuery\<close>, and \<open>handleCommand\<close> with its query,
  sorting, overflow check and batched, threaded delivery. The two collaborators the
  handler is given, the Matrix client and the database handle, are arguments of the model
  as they are arguments of the Go function; every call made to them is recorded in a
  trace, in the order the program makes it.
\<close>

section \<open>The term parser: \<open>parseArgs\<close>\<close>

text \<open>
  Go strings are byte sequences; they are modelled as \<open>string\<close> (a list of 8-bit
  \<open>char\<close>s). \<open>parseArgs\<close> walks the bytes of the query once, keeping the finished tokens,
  the \<open>strings.Builder\<close> of the token being read, and the quoting state.
\<close>

record scanner =
  tokens :: "string list"
  curr :: string
  inQuote :: bool
  quoteChar :: char

definition scanner_init :: scanner where
  "scanner_init = \<lparr>tokens = [], curr = [], inQuote = False, quoteChar = CHR 0x00\<rparr>"

text \<open>One iteration of the first loop of \<open>parseArgs\<close>, on the byte \<open>c\<close>.\<close>

definition scan_byte :: "char \<Rightarrow> scanner \<Rightarrow> scanner" where
  "scan_byte c st =
     (if c = CHR 0x22 \<or> c = CHR 0x27 then
        (if inQuote st \<and> c = quoteChar st then
           (if length (curr st) > 0
            then st\<lparr>tokens := tokens st @ [curr st], curr := [], inQuote := False\<rparr>
            else st\<lparr>inQuote := False\<rparr>)
         else if \<not> inQuote st then st\<lparr>inQuote := True, quoteChar := c\<rparr>
         else st\<lparr>curr := curr st @ [c]\<rparr>)
      else if c = CHR '' '' \<and> \<not> inQuote st then
        (if length (curr st) > 0
         then st\<lparr>tokens := tokens st @ [curr st], curr := []\<rparr>
         else st)
      else st\<lparr>curr := curr st @ [c]\<rparr>)"

primrec scan_bytes :: "string \<Rightarrow> scanner \<Rightarrow> scanner" where
  "scan_bytes [] st = st"
| "scan_bytes (c # cs) st = scan_bytes cs (scan_byte c st)"

text \<open>The flush after the loop: a pending token is kept if it is not empty.\<close>

definition final_tokens :: "scanner \<Rightarrow> string list" where
  "final_tokens st = (if length (curr st) > 0 then tokens st @ [curr st] else tokens st)"

text \<open>
  The second loop of \<open>parseArgs\<close>: empty tokens are skipped, a token whose first byte is
  \<open>-\<close> goes to the negatives as \<open>t[1:]\<close>, any other token goes to the positives.
\<close>

fun classify :: "string list \<Rightarrow> string list \<times> string list \<Rightarrow> string list \<times> string list" where
  "classify [] (positives, negatives) = (positives, negatives)"
| "classify (t # ts) (positives, negatives) =
     (if length t = 0 then classify ts (positives, negatives)
      else if hd t = CHR ''-'' then classify ts (positives, negatives @ [tl t])
      else classify ts (positives @ [t], negatives))"

definition parseArgs :: "string \<Rightarrow> string list \<times> string list" where
  "parseArgs query = classify (final_tokens (scan_bytes query scanner_init)) ([], [])"

section \<open>Library functions\<close>

text \<open>
  \<open>strings.Fields\<close>, \<open>strings.TrimSpace\<close> and \<open>strings.ToLower\<close> work on Unicode code points
  (white space and case mappings of the whole Unicode range). They are not part of the
  program; the model takes them as a parameter, so that every theorem holds for whatever
  these functions compute.
\<close>

record strings_pkg =
  Fields :: "string \<Rightarrow> string list"
  TrimSpace :: "string \<Rightarrow> string"
  ToLower :: "string \<Rightarrow> string"

text \<open>\<open>strings.Join\<close>.\<close>

fun Join :: "string list \<Rightarrow> string \<Rightarrow> string" where
  "Join [] sep = []"
| "Join [x] sep = x"
| "Join (x # y # ys) sep = x @ sep @ Join (y # ys) sep"

text \<open>\<open>%d\<close> of \<open>fmt.Sprintf\<close> on a non-negative number (a slice length).\<close>

definition digit :: "nat \<Rightarrow> char" where
  "digit d = ''0123456789'' ! d"

fun itoa :: "nat \<Rightarrow> string" where
  "itoa n = (if n < 10 then [digit n] else itoa (n div 10) @ [digit (n mod 10)])"

declare itoa.simps [simp del]

section \<open>The filter compiler: \<open>buildSQLQuery\<close>\<close>

text \<open>
  The arguments bound to the statement's placeholders (\<open>[]interface{}\<close>): the patterns
  are strings, the limit is a Go \<open>int\<close> (64 bits, \<open>maxResults+1\<close> wraps).
\<close>

datatype sql_arg = ArgText string | ArgInt "64 word"

definition positive_clause :: string where
  "positive_clause = ''(LOWER(section) LIKE ? OR LOWER(console) LIKE ? OR LOWER(file) LIKE ?)''"

definition negative_clause :: string where
  "negative_clause =
     ''(LOWER(section) NOT LIKE ? AND LOWER(console) NOT LIKE ? AND LOWER(file) NOT LIKE ?)''"

definition select_from :: string where
  "select_from = ''SELECT section, console, file, rawurl FROM files''"

definition order_by_limit :: string where
  "order_by_limit = '' ORDER BY section, console, file LIMIT ?''"

definition like_pattern :: "strings_pkg \<Rightarrow> string \<Rightarrow> string" where
  "like_pattern lib t = ''%'' @ ToLower lib t @ ''%''"

text \<open>The two loops over the terms; each appends one clause and three arguments.\<close>

fun add_positives ::
  "strings_pkg \<Rightarrow> string list \<Rightarrow> string list \<times> sql_arg list \<Rightarrow> string list \<times> sql_arg list" where
  "add_positives lib [] (wheres, args) = (wheres, args)"
| "add_positives lib (p # ps) (wheres, args) =
     (let w = positive_clause; val = like_pattern lib p
      in add_positives lib ps (wheres @ [w], args @ [ArgText val, ArgText val, ArgText val]))"

fun add_negatives ::
  "strings_pkg \<Rightarrow> string list \<Rightarrow> string list \<times> sql_arg list \<Rightarrow> string list \<times> sql_arg list" where
  "add_negatives lib [] (wheres, args) = (wheres, args)"
| "add_negatives lib (n # ns) (wheres, args) =
     (let w = negative_clause; val = like_pattern lib n
      in add_negatives lib ns (wheres @ [w], args @ [ArgText val, ArgText val, ArgText val]))"

definition buildSQLQuery ::
  "strings_pkg \<Rightarrow> string list \<Rightarrow> string list \<Rightarrow> 64 word \<Rightarrow> string \<times> sql_arg list" where
  "buildSQLQuery lib positives negatives maxResults =
     (case add_negatives lib negatives (add_positives lib positives ([], [])) of
        (wheres, args) \<Rightarrow>
          ((if length wheres > 0
            then select_from @ '' WHERE '' @ Join wheres '' AND ''
            else select_from) @ order_by_limit,
           args @ [ArgInt (maxResults + 1)]))"

section \<open>Catalog rows and the database handle\<close>

text \<open>The \<open>resultRow\<close> struct of \<open>handleCommand\<close>; the catalog table holds the same four texts.\<close>

record resultRow =
  Section :: string
  Console :: string
  File :: string
  Rawurl :: string

text \<open>
  What \<open>db.Query\<close> answers: an error, or a cursor. The cursor is given by what the
  handler can observe of it: for each row that \<open>rows.Next\<close> yields, whether \<open>rows.Scan\<close>
  decodes it (\<open>Inr\<close>) or fails (\<open>Inl\<close>), and the final \<open>rows.Err()\<close>.
\<close>

type_synonym rows = "(string + resultRow) list \<times> string option"

type_synonym db = "string \<Rightarrow> sql_arg list \<Rightarrow> string + rows"

section \<open>A catalog behind the database handle\<close>

text \<open>
  The storage engine (SQLite over the \<open>files\<close> table that \<open>build-db.go\<close> creates) is not part
  of the program. This section gives its behaviour on the statements \<open>buildSQLQuery\<close> can
  produce: the statement text is read back into its clauses, the placeholders are bound
  left to right, the rows satisfying every clause are ordered by (section, console, file)
  and cut at the limit. The SQL functions \<open>LOWER\<close> and \<open>LIKE\<close> are parameters. Any other
  statement or argument list is answered with an error. All four columns hold text, so
  \<open>rows.Scan\<close> into strings succeeds on every row.
\<close>

record sql_funs =
  LOWER :: "string \<Rightarrow> string"
  LIKE :: "string \<Rightarrow> string \<Rightarrow> bool"

datatype clause_kind = Includes | Excludes

fun strip_prefix :: "string \<Rightarrow> string \<Rightarrow> string option" where
  "strip_prefix [] ys = Some ys"
| "strip_prefix (x # xs) [] = None"
| "strip_prefix (x # xs) (y # ys) = (if x = y then strip_prefix xs ys else None)"

definition strip_clause :: "string \<Rightarrow> (clause_kind \<times> string) option" where
  "strip_clause s =
     (case strip_prefix positive_clause s of
        Some r \<Rightarrow> Some (Includes, r)
      | None \<Rightarrow>
          (case strip_prefix negative_clause s of
             Some r \<Rightarrow> Some (Excludes, r)
           | None \<Rightarrow> None))"

lemma strip_prefix_length: "strip_prefix p s = Some r \<Longrightarrow> length s = length p + length r"
  by (induction p s rule: strip_prefix.induct) (auto split: if_splits)

lemma strip_clause_shorter: "strip_clause s = Some (k, r) \<Longrightarrow> length r < length s"
  by (auto simp: strip_clause_def positive_clause_def negative_clause_def
      split: option.splits dest!: strip_prefix_length)

function parse_clauses :: "string \<Rightarrow> clause_kind list option" where
  "parse_clauses s =
     (case strip_clause s of
        None \<Rightarrow> None
      | Some (k, r) \<Rightarrow>
          (if r = order_by_limit then Some [k]
           else (case strip_prefix '' AND '' r of
                   None \<Rightarrow> None
                 | Some r' \<Rightarrow> map_option ((#) k) (parse_clauses r'))))"
  by pat_completeness auto
termination
proof (relation "measure length")
  show "wf (measure length)" by simp
next
  fix s :: string and x2 k r x2a
  assume "strip_clause s = Some x2" "(k, r) = x2" "strip_prefix '' AND '' r = Some x2a"
  then have "length r < length s" "length r = length '' AND '' + length x2a"
    by (auto dest: strip_clause_shorter strip_prefix_length)
  then show "(x2a, s) \<in> measure length" by simp
qed

declare parse_clauses.simps [simp del]

definition parse_select :: "string \<Rightarrow> clause_kind list option" where
  "parse_select sql =
     (case strip_prefix select_from sql of
        None \<Rightarrow> None
      | Some r \<Rightarrow>
          (if r = order_by_limit then Some []
           else (case strip_prefix '' WHERE '' r of
                   None \<Rightarrow> None
                 | Some r' \<Rightarrow> parse_clauses r')))"

text \<open>Binding: each clause takes the next three arguments; what is left is the limit.\<close>

fun bind_where ::
  "clause_kind list \<Rightarrow> sql_arg list \<Rightarrow>
   ((clause_kind \<times> string \<times> string \<times> string) list \<times> sql_arg list) option" where
  "bind_where [] args = Some ([], args)"
| "bind_where (k # ks) (ArgText a # ArgText b # ArgText c # args) =
     (case bind_where ks args of
        None \<Rightarrow> None
      | Some (bs, rest) \<Rightarrow> Some ((k, a, b, c) # bs, rest))"
| "bind_where (k # ks) args = None"

fun clause_holds :: "sql_funs \<Rightarrow> resultRow \<Rightarrow> clause_kind \<times> string \<times> string \<times> string \<Rightarrow> bool" where
  "clause_holds fn r (Includes, a, b, c) =
     (LIKE fn (LOWER fn (Section r)) a \<or> LIKE fn (LOWER fn (Console r)) b
      \<or> LIKE fn (LOWER fn (File r)) c)"
| "clause_holds fn r (Excludes, a, b, c) =
     (\<not> LIKE fn (LOWER fn (Section r)) a \<and> \<not> LIKE fn (LOWER fn (Console r)) b
      \<and> \<not> LIKE fn (LOWER fn (File r)) c)"

definition row_key :: "resultRow \<Rightarrow> string \<times> string \<times> string" where
  "row_key r = (Section r, Console r, File r)"

text \<open>\<open>LIMIT\<close>: a negative limit is no limit.\<close>

definition apply_limit :: "64 word \<Rightarrow> 'a list \<Rightarrow> 'a list" where
  "apply_limit l xs = (if sint l < 0 then xs else take (nat (sint l)) xs)"

definition select_rows ::
  "sql_funs \<Rightarrow> resultRow list \<Rightarrow> (clause_kind \<times> string \<times> string \<times> string) list \<Rightarrow> resultRow list" where
  "select_rows fn catalog bs = sort_key row_key (filter (\<lambda>r. list_all (clause_holds fn r) bs) catalog)"

definition sqlite_Query :: "sql_funs \<Rightarrow> resultRow list \<Rightarrow> db" where
  "sqlite_Query fn catalog sql args =
     (case parse_select sql of
        None \<Rightarrow> Inl ''unsupported statement''
      | Some ks \<Rightarrow>
          (case bind_where ks args of
             None \<Rightarrow> Inl ''wrong arguments''
           | Some (bs, rest) \<Rightarrow>
               (case rest of
                  [ArgInt l] \<Rightarrow> Inr (map Inr (apply_limit l (select_rows fn catalog bs)), None)
                | _ \<Rightarrow> Inl ''wrong arguments'')))"

section \<open>The Matrix client\<close>

text \<open>
  Event contents are \<open>map[string]interface{}\<close> values; they are modelled as the JSON
  objects they are sent as, an object being the list of its members.
\<close>

datatype json = JString string | JBool bool | JObject "(string \<times> json) list"

fun json_member :: "string \<Rightarrow> json \<Rightarrow> json option" where
  "json_member k (JObject kvs) = map_of kvs k"
| "json_member k (JString v) = None"
| "json_member k (JBool v) = None"

type_synonym eventID = string
type_synonym roomID = string

datatype event_type = EventReaction | EventMessage

text \<open>The two client methods the handler calls.\<close>

datatype request =
  SendText roomID string
| SendMessageEvent roomID event_type json

text \<open>
  A call returns an error (\<open>Inl\<close>) or a response, of which the handler reads the event
  identifier (\<open>Inr\<close>). The client is any function of the request and of a state of its
  own, of any type \<open>'s\<close>.
\<close>

type_synonym response = "string + eventID"

type_synonym 's client = "request \<Rightarrow> 's \<Rightarrow> response \<times> 's"

text \<open>The calls the handler makes to its collaborators, in order, with their results.\<close>

datatype effect =
  Queried string "sql_arg list" "string + rows"
| Sent request response

section \<open>\<open>handleCommand\<close>\<close>

definition maxResults :: nat where
  "maxResults = 1000"

definition batchSize :: nat where
  "batchSize = 100"

text \<open>The loop over \<open>rows.Next()\<close>: a row that fails to scan is skipped.\<close>

fun collect_rows :: "(string + resultRow) list \<Rightarrow> resultRow list \<Rightarrow> resultRow list" where
  "collect_rows [] results = results"
| "collect_rows (Inl err # next) results = collect_rows next results"
| "collect_rows (Inr row # next) results = collect_rows next (results @ [row])"

text \<open>The comparison function given to \<open>sort.Slice\<close>; \<open><\<close> on Go strings compares bytes.\<close>

definition less_row :: "resultRow \<Rightarrow> resultRow \<Rightarrow> bool" where
  "less_row a b =
     (if Section a \<noteq> Section b then Section a < Section b
      else if Console a \<noteq> Console b then Console a < Console b
      else File a < File b)"

text \<open>
  \<open>sort.Slice\<close> is modelled as insertion sort with the given comparison. Go leaves the
  order of elements that compare equal open; here they keep their order.
\<close>

fun insert_by :: "('a \<Rightarrow> 'a \<Rightarrow> bool) \<Rightarrow> 'a \<Rightarrow> 'a list \<Rightarrow> 'a list" where
  "insert_by lt x [] = [x]"
| "insert_by lt x (y # ys) = (if lt y x then y # insert_by lt x ys else x # y # ys)"

definition sort_Slice :: "('a \<Rightarrow> 'a \<Rightarrow> bool) \<Rightarrow> 'a list \<Rightarrow> 'a list" where
  "sort_Slice lt xs = foldr (insert_by lt) xs []"

text \<open>\<open>htmlEscape\<close>: a replacer whose old strings are single bytes maps each byte on its own.\<close>

definition escape_byte :: "char \<Rightarrow> string" where
  "escape_byte c =
     (if c = CHR ''&'' then ''&amp;''
      else if c = CHR ''<'' then ''&lt;''
      else if c = CHR ''>'' then ''&gt;''
      else if c = CHR 0x22 then ''&quot;''
      else if c = CHR 0x27 then ''&#39;''
      else [c])"

definition htmlEscape :: "string \<Rightarrow> string" where
  "htmlEscape s = concat (map escape_byte s)"

text \<open>The two bodies of a batch, one \<open>WriteString\<close> per row.\<close>

definition plain_line :: "resultRow \<Rightarrow> string" where
  "plain_line row = Section row @ '' - '' @ Console row @ '' - '' @ File row @ [CHR 0x0A]"

definition html_line :: "resultRow \<Rightarrow> string" where
  "html_line row =
     htmlEscape (Section row) @ '' - '' @ htmlEscape (Console row) @ '' - <a href='' @ [CHR 0x22]
     @ Rawurl row @ [CHR 0x22] @ ''>'' @ htmlEscape (File row) @ ''</a><br>''"

fun render_plain :: "resultRow list \<Rightarrow> string \<Rightarrow> string" where
  "render_plain [] plain = plain"
| "render_plain (row # batch) plain = render_plain batch (plain @ plain_line row)"

fun render_html :: "resultRow list \<Rightarrow> string \<Rightarrow> string" where
  "render_html [] html = html"
| "render_html (row # batch) html = render_html batch (html @ html_line row)"

text \<open>The reaction keys: a cross mark and a check mark, each followed by U+FE0F, in UTF-8.\<close>

definition key_rejected :: string where
  "key_rejected = [CHR 0xE2, CHR 0x9D, CHR 0x8C, CHR 0xEF, CHR 0xB8, CHR 0x8F]"

definition key_accepted :: string where
  "key_accepted = [CHR 0xE2, CHR 0x9C, CHR 0x85, CHR 0xEF, CHR 0xB8, CHR 0x8F]"

definition reactTooMany :: "eventID \<Rightarrow> json" where
  "reactTooMany eventID =
     JObject [(''m.relates_to'', JObject
       [(''rel_type'', JString ''m.annotation''),
        (''event_id'', JString eventID),
        (''key'', JString key_rejected)])]"

definition tooManyMsg :: "eventID \<Rightarrow> nat \<Rightarrow> json" where
  "tooManyMsg eventID n =
     JObject
       [(''msgtype'', JString ''m.text''),
        (''body'', JString (''Too many results: '' @ itoa n)),
        (''m.relates_to'', JObject
          [(''m.in_reply_to'', JObject [(''event_id'', JString eventID)])])]"

definition reactOk :: "eventID \<Rightarrow> json" where
  "reactOk eventID =
     JObject [(''m.relates_to'', JObject
       [(''rel_type'', JString ''m.annotation''),
        (''event_id'', JString eventID),
        (''key'', JString key_accepted)])]"

definition messageContent :: "eventID \<Rightarrow> eventID \<Rightarrow> string \<Rightarrow> string \<Rightarrow> json" where
  "messageContent eventID previousMsgID plain html =
     JObject
       [(''msgtype'', JString ''m.text''),
        (''body'', JString plain),
        (''format'', JString ''org.matrix.custom.html''),
        (''formatted_body'', JString html),
        (''m.relates_to'', JObject
          [(''event_id'', JString eventID),
           (''is_falling_back'', JBool True),
           (''m.in_reply_to'', JObject [(''event_id'', JString previousMsgID)]),
           (''rel_type'', JString ''m.thread'')])]"

text \<open>\<open>results[batchStart:batchEnd]\<close> with \<open>batchEnd\<close> as the loop computes it.\<close>

definition batch_at :: "resultRow list \<Rightarrow> nat \<Rightarrow> resultRow list" where
  "batch_at results batchStart =
     (let batchEnd = (if batchStart + batchSize > length results then length results
                      else batchStart + batchSize)
      in take (batchEnd - batchStart) (drop batchStart results))"

definition batch_request :: "roomID \<Rightarrow> eventID \<Rightarrow> eventID \<Rightarrow> resultRow list \<Rightarrow> request" where
  "batch_request roomID eventID previousMsgID batch =
     SendMessageEvent roomID EventMessage
       (messageContent eventID previousMsgID (render_plain batch []) (render_html batch []))"

text \<open>
  The batch loop. A failed send ends it (\<open>break\<close>, after a log line that is not
  modelled); a successful one makes the returned event the next reply target.
\<close>

function send_batches ::
  "'s client \<Rightarrow> roomID \<Rightarrow> eventID \<Rightarrow> resultRow list \<Rightarrow> nat \<Rightarrow> eventID \<Rightarrow> 's \<Rightarrow> effect list \<times> 's" where
  "send_batches client roomID eventID results batchStart previousMsgID s =
     (if batchStart < length results then
        (let req = batch_request roomID eventID previousMsgID (batch_at results batchStart) in
         case client req s of
           (Inl err, s') \<Rightarrow> ([Sent req (Inl err)], s')
         | (Inr respEventID, s') \<Rightarrow>
             (case send_batches client roomID eventID results (batchStart + batchSize) respEventID s' of
                (sent, s'') \<Rightarrow> (Sent req (Inr respEventID) # sent, s'')))
      else ([], s))"
  by pat_completeness auto
termination
  by (relation "measure (\<lambda>(client, roomID, eventID, results, batchStart, previousMsgID, s).
        length results - batchStart)") (auto simp: batchSize_def)

declare send_batches.simps [simp del]

text \<open>The part of the \<open>!roms\<close> case after the sort: overflow notice, or reaction and batches.\<close>

definition deliver :: "'s client \<Rightarrow> roomID \<Rightarrow> eventID \<Rightarrow> resultRow list \<Rightarrow> 's \<Rightarrow> effect list \<times> 's" where
  "deliver client roomID eventID results s =
     (if length results > maxResults then
        (let req1 = SendMessageEvent roomID EventReaction (reactTooMany eventID);
             req2 = SendMessageEvent roomID EventMessage (tooManyMsg eventID (length results))
         in case client req1 s of
              (resp1, s1) \<Rightarrow>
                (case client req2 s1 of
                   (resp2, s2) \<Rightarrow> ([Sent req1 resp1, Sent req2 resp2], s2)))
      else
        (let req = SendMessageEvent roomID EventReaction (reactOk eventID)
         in case client req s of
              (resp, s1) \<Rightarrow>
                (case send_batches client roomID eventID results 0 eventID s1 of
                   (sent, s2) \<Rightarrow> (Sent req resp # sent, s2))))"

text \<open>The error reply of the two failure exits of the query.\<close>

definition search_error :: "'s client \<Rightarrow> roomID \<Rightarrow> string \<Rightarrow> 's \<Rightarrow> effect list \<times> 's" where
  "search_error client roomID err s =
     (let req = SendText roomID (''Search error: '' @ err)
      in case client req s of (resp, s') \<Rightarrow> ([Sent req resp], s'))"

text \<open>The \<open>!roms\<close> case, from the parsed query on.\<close>

definition roms :: "strings_pkg \<Rightarrow> 's client \<Rightarrow> db \<Rightarrow> roomID \<Rightarrow> string \<Rightarrow> eventID \<Rightarrow> 's \<Rightarrow> effect list \<times> 's" where
  "roms lib client db roomID query eventID s =
     (case parseArgs query of
        (positives, negatives) \<Rightarrow>
          (case buildSQLQuery lib positives negatives (of_nat maxResults) of
             (sqlQuery, args) \<Rightarrow>
               (case db sqlQuery args of
                  Inl err \<Rightarrow>
                    (case search_error client roomID err s of
                       (sent, s') \<Rightarrow> (Queried sqlQuery args (Inl err) # sent, s'))
                | Inr (scanned, rowsErr) \<Rightarrow>
                    (case rowsErr of
                       Some err \<Rightarrow>
                         (case search_error client roomID err s of
                            (sent, s') \<Rightarrow> (Queried sqlQuery args (Inr (scanned, rowsErr)) # sent, s'))
                     | None \<Rightarrow>
                         (case deliver client roomID eventID
                                 (sort_Slice less_row (collect_rows scanned [])) s of
                            (sent, s') \<Rightarrow>
                              (Queried sqlQuery args (Inr (scanned, rowsErr)) # sent, s'))))))"

text \<open>
  The dispatch. \<open>body[len("!roms"):]\<close> panics when the body is shorter than the command
  word; the panic is the outcome \<open>None\<close>.
\<close>

definition handleCommand ::
  "strings_pkg \<Rightarrow> 's client \<Rightarrow> db \<Rightarrow> roomID \<Rightarrow> string \<Rightarrow> eventID \<Rightarrow> 's \<Rightarrow> (effect list \<times> 's) option" where
  "handleCommand lib client db roomID body eventID s =
     (let cmd = Fields lib body in
      if length cmd = 0 then Some ([], s)
      else if hd cmd = ''!roms'' then
        (if length body < length ''!roms'' then None
         else Some (roms lib client db roomID
                      (TrimSpace lib (drop (length ''!roms'') body)) eventID s))
      else Some ([], s))"

section \<open>Notions used to state the properties\<close>

text \<open>
  The filter as the specification words it: a record satisfies the terms when every
  positive term is a substring, ignoring case, of at least one of its three fields, and
  every negative term is absent from all three. Substring search is the \<open>LIKE\<close> of the
  lowered field against the lowered term between two \<open>%\<close>.
\<close>

definition field_has :: "strings_pkg \<Rightarrow> sql_funs \<Rightarrow> string \<Rightarrow> string \<Rightarrow> bool" where
  "field_has lib fn t field = LIKE fn (LOWER fn field) (''%'' @ ToLower lib t @ ''%'')"

definition spec_matches ::
  "strings_pkg \<Rightarrow> sql_funs \<Rightarrow> string list \<Rightarrow> string list \<Rightarrow> resultRow \<Rightarrow> bool" where
  "spec_matches lib fn positives negatives r =
     (list_all (\<lambda>p. field_has lib fn p (Section r) \<or> field_has lib fn p (Console r)
                     \<or> field_has lib fn p (File r)) positives
      \<and> list_all (\<lambda>n. \<not> field_has lib fn n (Section r) \<and> \<not> field_has lib fn n (Console r)
                       \<and> \<not> field_has lib fn n (File r)) negatives)"

text \<open>The records of a catalog that a command's query matches, and their number.\<close>

definition query_of :: "strings_pkg \<Rightarrow> string \<Rightarrow> string" where
  "query_of lib body = TrimSpace lib (drop (length ''!roms'') body)"

definition matching :: "strings_pkg \<Rightarrow> sql_funs \<Rightarrow> resultRow list \<Rightarrow> string \<Rightarrow> resultRow list" where
  "matching lib fn catalog body =
     filter (spec_matches lib fn (fst (parseArgs (query_of lib body)))
               (snd (parseArgs (query_of lib body)))) catalog"

text \<open>The rows fetched for a command: the matching records in order, cut at the limit.\<close>

definition fetched :: "strings_pkg \<Rightarrow> sql_funs \<Rightarrow> resultRow list \<Rightarrow> string \<Rightarrow> resultRow list" where
  "fetched lib fn catalog body = take (Suc maxResults) (sort_key row_key (matching lib fn catalog body))"

text \<open>The statement and arguments that a command is compiled to.\<close>

definition compiled :: "strings_pkg \<Rightarrow> string \<Rightarrow> string \<times> sql_arg list" where
  "compiled lib body =
     buildSQLQuery lib (fst (parseArgs (query_of lib body))) (snd (parseArgs (query_of lib body)))
       (of_nat maxResults)"

text \<open>
  A body is a \<open>!roms\<close> command when its first field is the command word. A field that
  \<open>strings.Fields\<close> returns is a piece of the body, so the body is then at least as long
  as the word; with \<open>Fields\<close> a parameter, this is said here.
\<close>

definition is_roms :: "strings_pkg \<Rightarrow> string \<Rightarrow> bool" where
  "is_roms lib body =
     (case Fields lib body of [] \<Rightarrow> False
      | c # cs \<Rightarrow> c = ''!roms'' \<and> length ''!roms'' \<le> length body)"

text \<open>The text of a clause of either kind.\<close>

fun clause_text :: "clause_kind \<Rightarrow> string" where
  "clause_text Includes = positive_clause"
| "clause_text Excludes = negative_clause"

text \<open>
  What \<open>buildSQLQuery\<close> makes of the terms: the kinds of its clauses, the arguments of the
  patterns, and the clauses with their patterns bound.
\<close>

definition kinds :: "string list \<Rightarrow> string list \<Rightarrow> clause_kind list" where
  "kinds ps ns = map (\<lambda>p. Includes) ps @ map (\<lambda>n. Excludes) ns"

definition bound :: "strings_pkg \<Rightarrow> string list \<Rightarrow> string list \<Rightarrow> (clause_kind \<times> string \<times> string \<times> string) list" where
  "bound lib ps ns = map (\<lambda>p. (Includes, like_pattern lib p, like_pattern lib p, like_pattern lib p)) ps
     @ map (\<lambda>n. (Excludes, like_pattern lib n, like_pattern lib n, like_pattern lib n)) ns"

definition pattern_args :: "strings_pkg \<Rightarrow> string list \<Rightarrow> sql_arg list" where
  "pattern_args lib ts = concat (map (\<lambda>p. [ArgText (like_pattern lib p), ArgText (like_pattern lib p), ArgText (like_pattern lib p)]) ts)"

text \<open>Running a compiled query on a catalog.\<close>

definition execute :: "sql_funs \<Rightarrow> resultRow list \<Rightarrow> string \<times> sql_arg list \<Rightarrow> string + rows" where
  "execute fn catalog q = sqlite_Query fn catalog (fst q) (snd q)"

text \<open>Reading a sent event: its thread root, its reply target, its bodies.\<close>

definition content_of :: "request \<Rightarrow> json" where
  "content_of req = (case req of SendText room text \<Rightarrow> JObject [] | SendMessageEvent room ty c \<Rightarrow> c)"

definition relates_to :: "request \<Rightarrow> string \<Rightarrow> json option" where
  "relates_to req k =
     (case json_member ''m.relates_to'' (content_of req) of
        None \<Rightarrow> None
      | Some rel \<Rightarrow> json_member k rel)"

definition thread_root :: "request \<Rightarrow> json option" where
  "thread_root req = relates_to req ''event_id''"

definition reply_target :: "request \<Rightarrow> json option" where
  "reply_target req =
     (case relates_to req ''m.in_reply_to'' of
        None \<Rightarrow> None
      | Some r \<Rightarrow> json_member ''event_id'' r)"

text \<open>A batch message is a message event of the thread relation.\<close>

definition is_batch :: "request \<Rightarrow> bool" where
  "is_batch req =
     (case req of
        SendText room text \<Rightarrow> False
      | SendMessageEvent room ty c \<Rightarrow>
          ty = EventMessage \<and> relates_to req ''rel_type'' = Some (JString ''m.thread''))"

fun batch_sends :: "effect list \<Rightarrow> (request \<times> response) list" where
  "batch_sends [] = []"
| "batch_sends (Queried sql args answer # es) = batch_sends es"
| "batch_sends (Sent req resp # es) =
     (if is_batch req then (req, resp) # batch_sends es else batch_sends es)"

fun sent_requests :: "effect list \<Rightarrow> request list" where
  "sent_requests [] = []"
| "sent_requests (Queried sql args answer # es) = sent_requests es"
| "sent_requests (Sent req resp # es) = req # sent_requests es"

text \<open>
  The partition of a result list into consecutive batches of at most \<open>n\<close> records, as
  the specification words it.
\<close>

fun chunks :: "nat \<Rightarrow> 'a list \<Rightarrow> 'a list list" where
  "chunks n [] = []"
| "chunks n (x # xs) =
     (if n = 0 then [x # xs] else take n (x # xs) # chunks n (drop n (x # xs)))"

text \<open>
  The shape of a run of the batch loop over the batches \<open>cs\<close>, as a list of requests with
  their responses: each request is the message of the next batch, in the thread of \<open>root\<close>
  and in reply to \<open>prev\<close>; after an error nothing follows, after a success the returned
  event is the next reply target; the run ends without an error only when no batch is
  left.
\<close>

fun follows ::
  "roomID \<Rightarrow> eventID \<Rightarrow> eventID \<Rightarrow> resultRow list list \<Rightarrow> (request \<times> response) list \<Rightarrow> bool" where
  "follows room root prev [] sends = (sends = [])"
| "follows room root prev (c # cs) [] = False"
| "follows room root prev (c # cs) ((req, resp) # sends) =
     (req = batch_request room root prev c
      \<and> (case resp of Inl err \<Rightarrow> sends = [] | Inr i \<Rightarrow> follows room root i cs sends))"

text \<open>The bodies of a sent message.\<close>

definition plain_body :: "request \<Rightarrow> json option" where
  "plain_body req = json_member ''body'' (content_of req)"

definition html_body :: "request \<Rightarrow> json option" where
  "html_body req = json_member ''formatted_body'' (content_of req)"

section \<open>Instances on which the model is run\<close>

text \<open>
  On strings of ASCII bytes the three library functions and the two SQL functions compute
  what follows; \<open>LIKE\<close> has the wildcards \<open>%\<close> and \<open>_\<close> and ignores the case of letters.
\<close>

definition ascii_space :: "char \<Rightarrow> bool" where
  "ascii_space c = (c \<in> set [CHR 0x09, CHR 0x0A, CHR 0x0B, CHR 0x0C, CHR 0x0D, CHR '' ''])"

definition ascii_lower :: "char \<Rightarrow> char" where
  "ascii_lower c =
     (if CHR ''A'' \<le> c \<and> c \<le> CHR ''Z'' then char_of (of_char c + (32::nat)) else c)"

fun ascii_fields :: "string \<Rightarrow> string \<Rightarrow> string list" where
  "ascii_fields [] field = (if field = [] then [] else [field])"
| "ascii_fields (c # cs) field =
     (if ascii_space c then (if field = [] then ascii_fields cs [] else field # ascii_fields cs [])
      else ascii_fields cs (field @ [c]))"

definition ascii_strings :: strings_pkg where
  "ascii_strings =
     \<lparr>Fields = (\<lambda>s. ascii_fields s []),
      TrimSpace = (\<lambda>s. rev (dropWhile ascii_space (rev (dropWhile ascii_space s)))),
      ToLower = map ascii_lower\<rparr>"

fun like_match :: "string \<Rightarrow> string \<Rightarrow> bool" where
  "like_match [] v = (v = [])"
| "like_match (p # ps) [] = (p = CHR ''%'' \<and> like_match ps [])"
| "like_match (p # ps) (c # cs) =
     (if p = CHR ''%'' then like_match ps (c # cs) \<or> like_match (p # ps) cs
      else (p = CHR ''_'' \<or> ascii_lower p = ascii_lower c) \<and> like_match ps cs)"

definition ascii_sql :: sql_funs where
  "ascii_sql = \<lparr>LOWER = map ascii_lower, LIKE = (\<lambda>x pattern. like_match pattern x)\<rparr>"

text \<open>
  A client that counts its calls from 0 and answers call \<open>n\<close> with the event \<open>$n\<close>, except
  the calls in \<open>failing\<close>, which it answers with an error.
\<close>

definition counting_client :: "nat list \<Rightarrow> nat client" where
  "counting_client failing req n =
     (if n \<in> set failing then Inl ''timeout'' else Inr (''$'' @ itoa n), Suc n)"

text \<open>A database handle whose every query fails, and one whose cursors break.\<close>

definition failing_db :: db where
  "failing_db sql args = Inl ''database is locked''"

definition broken_cursor_db :: db where
  "broken_cursor_db sql args = Inr ([], Some ''disk I/O error'')"

text \<open>
  A database handle that answers every query with the given cursor, and a cursor of three
  rows out of order with one row that fails to scan.
\<close>

definition canned_db :: "(string + resultRow) list \<Rightarrow> db" where
  "canned_db scanned sql args = Inr (scanned, None)"

definition unsorted_rows :: "(string + resultRow) list" where
  "unsorted_rows =
     [Inr \<lparr>Section = ''b'', Console = ''x'', File = ''1'', Rawurl = ''u1''\<rparr>,
      Inl ''converting NULL to string is unsupported'',
      Inr \<lparr>Section = ''a'', Console = ''y'', File = ''2'', Rawurl = ''u2''\<rparr>,
      Inr \<lparr>Section = ''a'', Console = ''x'', File = ''3'', Rawurl = ''u3''\<rparr>]"

text \<open>A catalog of \<open>n\<close> records with distinct files and resource URLs.\<close>

definition catalog_of_size :: "nat \<Rightarrow> resultRow list" where
  "catalog_of_size n =
     map (\<lambda>i. \<lparr>Section = ''No-Intro'', Console = ''SNES'', File = itoa i @ ''.zip'',
               Rawurl = ''https://myrient.erista.me/files/No-Intro/SNES/'' @ itoa i @ ''.zip''\<rparr>)
       [0..<n]"

section \<open>Properties of the term parser\<close>

lemma scan_bytes_append: "scan_bytes (xs @ ys) st = scan_bytes ys (scan_bytes xs st)"
  by (induction xs arbitrary: st) simp_all

lemma scan_bytes_plain:
  "\<not> inQuote st \<Longrightarrow> CHR 0x22 \<notin> set u \<Longrightarrow> CHR 0x27 \<notin> set u \<Longrightarrow> CHR '' '' \<notin> set u \<Longrightarrow>
   scan_bytes u st = st\<lparr>curr := curr st @ u\<rparr>"
  by (induction u arbitrary: st) (auto simp: scan_byte_def)

lemma scan_bytes_quoted:
  "inQuote st \<Longrightarrow> quoteChar st \<notin> set v \<Longrightarrow> scan_bytes v st = st\<lparr>curr := curr st @ v\<rparr>"
  by (induction v arbitrary: st) (auto simp: scan_byte_def)

text \<open>
  A span \<open>u q v q\<close> read outside quotes: \<open>u\<close> holds no space and no quote, \<open>q\<close> is a quote
  character and \<open>v\<close> does not hold it. The opening quote leaves the pending bytes in
  place, the closing quote ends the token made of all of them.
\<close>

lemma scan_quoted_span:
  assumes q: "q = CHR 0x22 \<or> q = CHR 0x27"
    and u: "CHR 0x22 \<notin> set u" "CHR 0x27 \<notin> set u" "CHR '' '' \<notin> set u"
    and v: "q \<notin> set v"
    and st: "\<not> inQuote st"
  shows "scan_bytes (u @ q # v @ q # rest) st =
         scan_bytes rest
           (if curr st @ u @ v \<noteq> []
            then st\<lparr>tokens := tokens st @ [curr st @ u @ v], curr := [], inQuote := False,
                   quoteChar := q\<rparr>
            else st\<lparr>inQuote := False, quoteChar := q\<rparr>)"
proof -
  let ?s1 = "st\<lparr>curr := curr st @ u\<rparr>"
  have 1: "scan_bytes u st = ?s1" using st u by (rule scan_bytes_plain)
  let ?s2 = "?s1\<lparr>inQuote := True, quoteChar := q\<rparr>"
  have 2: "scan_byte q ?s1 = ?s2" using q st by (auto simp: scan_byte_def)
  let ?s3 = "?s2\<lparr>curr := curr ?s2 @ v\<rparr>"
  have 3: "scan_bytes v ?s2 = ?s3" by (rule scan_bytes_quoted) (use v in simp_all)
  have 4: "scan_byte q ?s3 =
           (if curr st @ u @ v \<noteq> []
            then st\<lparr>tokens := tokens st @ [curr st @ u @ v], curr := [], inQuote := False,
                   quoteChar := q\<rparr>
            else st\<lparr>inQuote := False, quoteChar := q\<rparr>)"
    using q by (auto simp: scan_byte_def)
  have "scan_bytes (u @ q # v @ q # rest) st =
        scan_bytes rest (scan_byte q (scan_bytes v (scan_byte q (scan_bytes u st))))"
    by (simp add: scan_bytes_append)
  then show ?thesis by (simp only: 1 2 3 4)
qed

lemma tokens_nonempty_step: "[] \<notin> set (tokens st) \<Longrightarrow> [] \<notin> set (tokens (scan_byte c st))"
  by (auto simp: scan_byte_def)

lemma tokens_nonempty_scan: "[] \<notin> set (tokens st) \<Longrightarrow> [] \<notin> set (tokens (scan_bytes cs st))"
  by (induction cs arbitrary: st) (simp_all add: tokens_nonempty_step)

lemma final_tokens_nonempty: "[] \<notin> set (final_tokens (scan_bytes query scanner_init))"
  using tokens_nonempty_scan [of scanner_init query]
  by (auto simp: final_tokens_def scanner_init_def)

lemma classify_positives:
  "classify ts (ps, ns) = (ps', ns') \<Longrightarrow> [] \<notin> set ps \<Longrightarrow> [] \<notin> set ps'"
  by (induction ts "(ps, ns)" arbitrary: ps ns rule: classify.induct) (auto split: if_splits)

text \<open>The tokens are never empty, and neither are the positive terms.\<close>

lemma parseArgs_positives_nonempty: "[] \<notin> set (fst (parseArgs query))"
  using classify_positives [of "final_tokens (scan_bytes query scanner_init)" "[]" "[]"]
  by (cases "parseArgs query") (auto simp: parseArgs_def)

text \<open>
  C2. Every term that \<open>parseArgs\<close> returns should be non-empty. The token \<open>-\<close> passes the
  emptiness test of the second loop and is then stored without its marker: the query
  \<open>-\<close> yields one negative term, the empty string.
\<close>

theorem parseArgs_lone_dash: "parseArgs ''-'' = ([], [[]])"
  by (simp add: parseArgs_def scanner_init_def scan_byte_def final_tokens_def)

text \<open>
  C10. A closing quote ends the current token at once, with the bytes read before the
  opening quote and those of the quoted span as one token, and the bytes after it start
  the next token: for a quote character \<open>q\<close>, bytes \<open>u\<close> and \<open>w\<close> free of spaces and quotes,
  and a span \<open>v\<close> free of \<open>q\<close>, the query \<open>u q v q w\<close> has the positive terms \<open>u v\<close> and \<open>w\<close>
  (neither starting with the negation marker).
\<close>

theorem parseArgs_closing_quote_ends_token:
  assumes q: "q = CHR 0x22 \<or> q = CHR 0x27"
    and u: "CHR 0x22 \<notin> set u" "CHR 0x27 \<notin> set u" "CHR '' '' \<notin> set u"
    and v: "q \<notin> set v"
    and w: "CHR 0x22 \<notin> set w" "CHR 0x27 \<notin> set w" "CHR '' '' \<notin> set w"
    and ne: "u @ v \<noteq> []" "w \<noteq> []"
    and pos: "hd (u @ v) \<noteq> CHR ''-''" "hd w \<noteq> CHR ''-''"
  shows "parseArgs (u @ q # v @ q # w) = ([u @ v, w], [])"
proof -
  let ?st = "\<lparr>tokens = [u @ v], curr = [], inQuote = False, quoteChar = q\<rparr>"
  have "scan_bytes (u @ q # v @ q # w) scanner_init = scan_bytes w ?st"
    using scan_quoted_span [OF q u v, of scanner_init w] ne by (simp add: scanner_init_def)
  also have "\<dots> = ?st\<lparr>curr := curr ?st @ w\<rparr>"
    by (rule scan_bytes_plain) (use w in simp_all)
  finally have "final_tokens (scan_bytes (u @ q # v @ q # w) scanner_init) = [u @ v, w]"
    using ne by (simp add: final_tokens_def)
  then show ?thesis using ne pos by (simp add: parseArgs_def)
qed

text \<open>The query \<open>a"b c"d\<close>.\<close>

theorem parseArgs_closing_quote_ends_token_witness:
  "parseArgs [CHR ''a'', CHR 0x22, CHR ''b'', CHR '' '', CHR ''c'', CHR 0x22, CHR ''d'']
   = ([''ab c'', ''d''], [])"
  using parseArgs_closing_quote_ends_token [of "CHR 0x22" "''a''" "''b c''" "''d''"] by simp

section \<open>The compiled query and its execution\<close>

lemma add_positives_eq:
  "add_positives lib ps (wheres, args) =
     (wheres @ map (\<lambda>p. positive_clause) ps,
      args @ concat (map (\<lambda>p. [ArgText (like_pattern lib p), ArgText (like_pattern lib p), ArgText (like_pattern lib p)]) ps))"
  by (induction ps arbitrary: wheres args) (simp_all add: Let_def)

lemma add_negatives_eq:
  "add_negatives lib ns (wheres, args) =
     (wheres @ map (\<lambda>n. negative_clause) ns,
      args @ concat (map (\<lambda>n. [ArgText (like_pattern lib n), ArgText (like_pattern lib n), ArgText (like_pattern lib n)]) ns))"
  by (induction ns arbitrary: wheres args) (simp_all add: Let_def)

lemma strip_prefix_append: "strip_prefix p (p @ r) = Some r"
  by (induction p) simp_all

lemma strip_positive_negative: "strip_prefix positive_clause (negative_clause @ r) = None"
  by (simp add: positive_clause_def negative_clause_def)

lemma strip_clause_text: "strip_clause (clause_text k @ r) = Some (k, r)"
  by (cases k) (simp_all add: strip_clause_def strip_prefix_append strip_positive_negative)

lemma and_not_order: "'' AND '' @ r \<noteq> order_by_limit"
  by (simp add: order_by_limit_def)

lemma parse_clauses_Join:
  "ks \<noteq> [] \<Longrightarrow> parse_clauses (Join (map clause_text ks) '' AND '' @ order_by_limit) = Some ks"
proof (induction ks rule: list_nonempty_induct)
  case (single k)
  show ?case using strip_clause_text [of k order_by_limit]
    by (simp add: parse_clauses.simps)
next
  case (cons k ks)
  then obtain k' ks' where ks: "ks = k' # ks'" by (cases ks) auto
  let ?rest = "Join (map clause_text ks) '' AND '' @ order_by_limit"
  have "Join (map clause_text (k # ks)) '' AND '' @ order_by_limit = clause_text k @ '' AND '' @ ?rest"
    by (simp add: ks)
  moreover have "parse_clauses (clause_text k @ '' AND '' @ ?rest) = Some (k # ks)"
    using strip_clause_text [of k "'' AND '' @ ?rest"] and_not_order [of ?rest] cons.IH
      strip_prefix_append [of "'' AND ''" ?rest]
    by (subst parse_clauses.simps) (simp del: strip_prefix.simps)
  ultimately show ?case by simp
qed

lemma where_not_order: "'' WHERE '' @ r \<noteq> order_by_limit"
  by (simp add: order_by_limit_def)

lemma buildSQLQuery_eq:
  "buildSQLQuery lib ps ns m =
     ((if kinds ps ns \<noteq> [] then select_from @ '' WHERE '' @ Join (map clause_text (kinds ps ns)) '' AND ''
       else select_from) @ order_by_limit,
      pattern_args lib ps @ pattern_args lib ns @ [ArgInt (m + 1)])"
  by (simp add: buildSQLQuery_def add_positives_eq add_negatives_eq kinds_def pattern_args_def comp_def)

lemma parse_select_build: "parse_select (fst (buildSQLQuery lib ps ns m)) = Some (kinds ps ns)"
proof (cases "kinds ps ns = []")
  case True
  then show ?thesis by (simp add: buildSQLQuery_eq parse_select_def strip_prefix_append)
next
  case False
  let ?w = "Join (map clause_text (kinds ps ns)) '' AND '' @ order_by_limit"
  have "fst (buildSQLQuery lib ps ns m) = select_from @ '' WHERE '' @ ?w"
    using False by (simp add: buildSQLQuery_eq)
  moreover have "parse_select (select_from @ '' WHERE '' @ ?w) = Some (kinds ps ns)"
    using strip_prefix_append [of select_from "'' WHERE '' @ ?w"] where_not_order [of ?w]
      strip_prefix_append [of "'' WHERE ''" ?w] parse_clauses_Join [OF False]
    by (simp add: parse_select_def del: strip_prefix.simps)
  ultimately show ?thesis by simp
qed

lemma bind_where_neg:
  "bind_where (map (\<lambda>n. Excludes) ns) (pattern_args lib ns @ rest) =
     Some (map (\<lambda>n. (Excludes, like_pattern lib n, like_pattern lib n, like_pattern lib n)) ns, rest)"
  by (induction ns) (simp_all add: pattern_args_def)

lemma bind_where_build:
  "bind_where (kinds ps ns) (pattern_args lib ps @ pattern_args lib ns @ rest) = Some (bound lib ps ns, rest)"
proof (induction ps)
  case Nil
  show ?case using bind_where_neg [of ns lib rest] by (simp add: kinds_def bound_def pattern_args_def)
next
  case (Cons p ps)
  then show ?case by (simp add: kinds_def bound_def pattern_args_def)
qed

lemma includes_hold:
  "list_all (clause_holds fn r) (map (\<lambda>p. (Includes, like_pattern lib p, like_pattern lib p, like_pattern lib p)) ps)
   = list_all (\<lambda>p. field_has lib fn p (Section r) \<or> field_has lib fn p (Console r) \<or> field_has lib fn p (File r)) ps"
  by (induction ps) (simp_all add: field_has_def like_pattern_def)

lemma excludes_hold:
  "list_all (clause_holds fn r) (map (\<lambda>n. (Excludes, like_pattern lib n, like_pattern lib n, like_pattern lib n)) ns)
   = list_all (\<lambda>n. \<not> field_has lib fn n (Section r) \<and> \<not> field_has lib fn n (Console r) \<and> \<not> field_has lib fn n (File r)) ns"
  by (induction ns) (simp_all add: field_has_def like_pattern_def)

lemma bound_holds: "list_all (clause_holds fn r) (bound lib ps ns) = spec_matches lib fn ps ns r"
  by (simp add: bound_def spec_matches_def includes_hold excludes_hold)

lemma sqlite_Query_build:
  "sqlite_Query fn catalog (fst (buildSQLQuery lib ps ns m)) (snd (buildSQLQuery lib ps ns m)) =
     Inr (map Inr (apply_limit (m + 1) (sort_key row_key (filter (spec_matches lib fn ps ns) catalog))), None)"
proof -
  have "snd (buildSQLQuery lib ps ns m) = pattern_args lib ps @ pattern_args lib ns @ [ArgInt (m + 1)]"
    by (simp add: buildSQLQuery_eq)
  then show ?thesis
    by (simp add: sqlite_Query_def parse_select_build bind_where_build select_rows_def bound_holds)
qed

section \<open>Monotonicity of the filter, order of the results\<close>

lemma length_filter_mono:
  "(\<And>x. P x \<Longrightarrow> Q x) \<Longrightarrow> length (filter P xs) \<le> length (filter Q xs)"
  by (induction xs) auto

lemma length_apply_limit:
  "length (apply_limit l xs) = (if sint l < 0 then length xs else min (nat (sint l)) (length xs))"
  by (auto simp: apply_limit_def)

lemma length_apply_limit_mono:
  "length xs \<le> length ys \<Longrightarrow> length (apply_limit l xs) \<le> length (apply_limit l ys)"
  by (auto simp: length_apply_limit)

lemma spec_matches_more_positive: "spec_matches lib fn (ps @ [t]) ns r \<Longrightarrow> spec_matches lib fn ps ns r"
  by (simp add: spec_matches_def)

lemma spec_matches_more_negative: "spec_matches lib fn ps (ns @ [t]) r \<Longrightarrow> spec_matches lib fn ps ns r"
  by (simp add: spec_matches_def)

lemma execute_build:
  "execute fn catalog (buildSQLQuery lib ps ns m) =
     Inr (map Inr (apply_limit (m + 1) (sort_key row_key (filter (spec_matches lib fn ps ns) catalog))), None)"
  by (simp add: execute_def sqlite_Query_build)

text \<open>
  C3. For a fixed catalog, limit and term lists, the compiled query with one more positive
  term, and the one with one more negative term, both execute without error and return
  at most as many rows as the query without it.
\<close>

theorem filter_compilation_monotonic:
  "\<exists>rs rs1 rs2.
     execute fn catalog (buildSQLQuery lib ps ns m) = Inr (rs, None)
     \<and> execute fn catalog (buildSQLQuery lib (ps @ [t]) ns m) = Inr (rs1, None)
     \<and> execute fn catalog (buildSQLQuery lib ps (ns @ [t]) m) = Inr (rs2, None)
     \<and> length rs1 \<le> length rs \<and> length rs2 \<le> length rs"
proof -
  let ?rows = "\<lambda>ps ns. apply_limit (m + 1) (sort_key row_key (filter (spec_matches lib fn ps ns) catalog))"
  have "length (?rows (ps @ [t]) ns) \<le> length (?rows ps ns)"
    by (intro length_apply_limit_mono) (simp add: length_filter_mono spec_matches_more_positive)
  moreover have "length (?rows ps (ns @ [t])) \<le> length (?rows ps ns)"
    by (intro length_apply_limit_mono) (simp add: length_filter_mono spec_matches_more_negative)
  ultimately show ?thesis by (simp add: execute_build)
qed

lemma less_row_key: "less_row a b \<longleftrightarrow> row_key a < row_key b"
  by (auto simp: less_row_def row_key_def)

lemma set_insert_by: "set (insert_by lt x xs) = insert x (set xs)"
  by (induction xs) auto

lemma length_insert_by: "length (insert_by lt x xs) = Suc (length xs)"
  by (induction xs) auto

lemma sorted_insert_by:
  "sorted_wrt (\<lambda>a b. row_key a \<le> row_key b) xs \<Longrightarrow>
   sorted_wrt (\<lambda>a b. row_key a \<le> row_key b) (insert_by less_row x xs)"
  by (induction xs) (auto simp: set_insert_by less_row_key)

lemma set_sort_Slice: "set (sort_Slice lt xs) = set xs"
  by (induction xs) (simp_all add: sort_Slice_def set_insert_by)

lemma length_sort_Slice: "length (sort_Slice lt xs) = length xs"
  by (induction xs) (simp_all add: sort_Slice_def length_insert_by)

lemma sorted_sort_Slice: "sorted_wrt (\<lambda>a b. row_key a \<le> row_key b) (sort_Slice less_row xs)"
proof (induction xs)
  case Nil
  show ?case by (simp add: sort_Slice_def)
next
  case (Cons x xs)
  then show ?case using sorted_insert_by [of "sort_Slice less_row xs" x] by (simp add: sort_Slice_def)
qed

text \<open>The order on strings is the lexicographic order of their bytes.\<close>

lemma string_less_bytes:
  "(x::string) < y \<longleftrightarrow>
     (\<exists>a v. y = x @ a # v)
     \<or> (\<exists>u a b v w. (of_char a :: nat) < of_char b \<and> x = u @ a # v \<and> y = u @ b # w)"
  by (simp add: list_less_def lexord_def less_char_def)

lemma triple_le:
  "(a::string, b::string, c::string) \<le> (a', b', c') \<longleftrightarrow>
     a < a' \<or> (a = a' \<and> (b < b' \<or> (b = b' \<and> c \<le> c')))"
  by auto

text \<open>
  What \<open>sort.Slice\<close> with the handler's comparison returns: the same rows, any two
  consecutive ones in non-decreasing order of (section, console, file).
\<close>

lemma sort_Slice_ordered:
  assumes "results = sort_Slice less_row rows"
  shows "length results = length rows \<and> set results = set rows
    \<and> (\<forall>i. Suc i < length results \<longrightarrow>
          (Section (results ! i) < Section (results ! Suc i)
           \<or> (Section (results ! i) = Section (results ! Suc i)
               \<and> (Console (results ! i) < Console (results ! Suc i)
                    \<or> (Console (results ! i) = Console (results ! Suc i)
                        \<and> File (results ! i) \<le> File (results ! Suc i))))))"
proof -
  have "sorted_wrt (\<lambda>a b. row_key a \<le> row_key b) results"
    unfolding assms by (rule sorted_sort_Slice)
  then have "\<forall>i. Suc i < length results \<longrightarrow> row_key (results ! i) \<le> row_key (results ! Suc i)"
    by (simp add: sorted_wrt_iff_nth_less)
  then have ordered: "\<forall>i. Suc i < length results \<longrightarrow>
          (Section (results ! i) < Section (results ! Suc i)
           \<or> (Section (results ! i) = Section (results ! Suc i)
               \<and> (Console (results ! i) < Console (results ! Suc i)
                    \<or> (Console (results ! i) = Console (results ! Suc i)
                        \<and> File (results ! i) \<le> File (results ! Suc i)))))"
    unfolding row_key_def triple_le .
  have "length results = length rows" and "set results = set rows"
    by (simp_all add: assms length_sort_Slice set_sort_Slice)
  with ordered show ?thesis by blast
qed

section \<open>The bodies of a batch\<close>





text \<open>A record whose file holds the three characters, and whose URL holds a quote.\<close>

lemma batch_bodies_example:
  "render_plain [\<lparr>Section = ''S'', Console = ''C'', File = ''a<b&'' @ [CHR 0x22], Rawurl = ''u?x='' @ [CHR 0x22]\<rparr>] []
     = ''S - C - a<b&'' @ [CHR 0x22, CHR 0x0A]
   \<and> render_html [\<lparr>Section = ''S'', Console = ''C'', File = ''a<b&'' @ [CHR 0x22], Rawurl = ''u?x='' @ [CHR 0x22]\<rparr>] []
     = ''S - C - <a href='' @ [CHR 0x22] @ ''u?x='' @ [CHR 0x22, CHR 0x22] @ ''>a&lt;b&amp;&quot;</a><br>''"
  by (simp add: plain_line_def html_line_def htmlEscape_def escape_byte_def)

section \<open>The batch loop\<close>

lemma is_batch_batch_request [simp]: "is_batch (batch_request roomID eventID prev batch)"
  by (simp add: is_batch_def batch_request_def messageContent_def relates_to_def content_of_def)

lemma thread_root_batch_request [simp]:
  "thread_root (batch_request roomID eventID prev batch) = Some (JString eventID)"
  by (simp add: thread_root_def batch_request_def messageContent_def relates_to_def content_of_def)

lemma reply_target_batch_request [simp]:
  "reply_target (batch_request roomID eventID prev batch) = Some (JString prev)"
  by (simp add: reply_target_def batch_request_def messageContent_def relates_to_def content_of_def)

lemma not_batch_reactOk [simp]: "\<not> is_batch (SendMessageEvent roomID EventReaction c)"
  by (simp add: is_batch_def)

lemma not_batch_tooMany [simp]: "\<not> is_batch (SendMessageEvent roomID ty (tooManyMsg eventID n))"
  by (simp add: is_batch_def tooManyMsg_def relates_to_def content_of_def)

lemma not_batch_SendText [simp]: "\<not> is_batch (SendText roomID text)"
  by (simp add: is_batch_def)

lemma batch_at_eq: "batch_at results start = take batchSize (drop start results)"
  by (auto simp: batch_at_def Let_def)

text \<open>One unfolding of the loop, by the outcome of the send.\<close>

lemma send_batches_done:
  "\<not> start < length results \<Longrightarrow> send_batches client roomID eventID results start prev s = ([], s)"
  by (simp add: send_batches.simps)

lemma send_batches_fail:
  "start < length results \<Longrightarrow>
   client (batch_request roomID eventID prev (batch_at results start)) s = (Inl err, s1) \<Longrightarrow>
   send_batches client roomID eventID results start prev s =
     ([Sent (batch_request roomID eventID prev (batch_at results start)) (Inl err)], s1)"
  by (simp add: send_batches.simps)

lemma send_batches_ok:
  "start < length results \<Longrightarrow>
   client (batch_request roomID eventID prev (batch_at results start)) s = (Inr i, s1) \<Longrightarrow>
   send_batches client roomID eventID results start prev s =
     (Sent (batch_request roomID eventID prev (batch_at results start)) (Inr i)
        # fst (send_batches client roomID eventID results (start + batchSize) i s1),
      snd (send_batches client roomID eventID results (start + batchSize) i s1))"
  by (simp add: send_batches.simps split: prod.splits)

lemma chunks_unfold: "0 < n \<Longrightarrow> xs \<noteq> [] \<Longrightarrow> chunks n xs = take n xs # chunks n (drop n xs)"
  by (cases xs) simp_all

lemma concat_chunks: "concat (chunks n xs) = xs"
  by (induction n xs rule: chunks.induct) (simp_all del: take_Suc_Cons drop_Suc_Cons add: append_take_drop_id)

lemma chunks_bounded: "0 < n \<Longrightarrow> list_all (\<lambda>b. b \<noteq> [] \<and> length b \<le> n) (chunks n xs)"
  by (induction n xs rule: chunks.induct) (auto simp del: take_Suc_Cons drop_Suc_Cons simp: take_eq_Nil)

lemma chunks_two_full: 
  assumes "0 < n" "length xs = 2 * n" shows "map length (chunks n xs) = [n, n]"
proof -
  have 1: "xs \<noteq> []" using assms by auto
  have 2: "drop n xs \<noteq> []" using assms by auto
  have 3: "drop n (drop n xs) = []" using assms by auto
  show ?thesis using assms by (simp add: chunks_unfold [OF assms(1) 1] chunks_unfold [OF assms(1) 2] 3)
qed

lemma chunks_full_and_one: 
  assumes "0 < n" "length xs = n + 1" shows "map length (chunks n xs) = [n, 1]"
proof -
  have 1: "xs \<noteq> []" using assms by auto
  have 2: "drop n xs \<noteq> []" using assms by auto
  have 3: "drop n (drop n xs) = []" using assms by auto
  show ?thesis using assms by (simp add: chunks_unfold [OF assms(1) 1] chunks_unfold [OF assms(1) 2] 3)
qed

lemma batchSize_pos: "0 < batchSize" by (simp add: batchSize_def)

lemma chunks_drop_step:
  "start < length results \<Longrightarrow>
   chunks batchSize (drop start results) =
     batch_at results start # chunks batchSize (drop (start + batchSize) results)"
  using chunks_unfold [OF batchSize_pos, of "drop start results"]
  by (simp add: batch_at_eq add.commute)

lemma send_batches_follows:
  "follows roomID eventID prev (chunks batchSize (drop start results))
     (batch_sends (fst (send_batches client roomID eventID results start prev s)))
   \<and> map (\<lambda>(req, resp). Sent req resp) (batch_sends (fst (send_batches client roomID eventID results start prev s)))
     = fst (send_batches client roomID eventID results start prev s)"
proof (induction "length results - start" arbitrary: start prev s rule: less_induct)
  case less
  show ?case
  proof (cases "start < length results")
    case False
    then show ?thesis by (simp add: send_batches_done)
  next
    case True
    let ?req = "batch_request roomID eventID prev (batch_at results start)"
    obtain resp s1 where c: "client ?req s = (resp, s1)" by (cases "client ?req s")
    show ?thesis
    proof (cases resp)
      case (Inl err)
      then show ?thesis using True c
        by (simp add: send_batches_fail chunks_drop_step)
    next
      case (Inr i)
      have "length results - (start + batchSize) < length results - start"
        using True batchSize_pos by simp
      from less [OF this, of i s1] show ?thesis using True c Inr
        by (simp add: send_batches_ok chunks_drop_step)
    qed
  qed
qed

lemma follows_length: "follows room root prev cs sends \<Longrightarrow> length sends \<le> length cs"
  by (induction room root prev cs sends rule: follows.induct) (auto split: sum.splits)

lemma follows_nth:
  "follows room root prev cs sends \<Longrightarrow> k < length sends \<Longrightarrow>
   \<exists>p. fst (sends ! k) = batch_request room root p (cs ! k)"
proof (induction room root prev cs sends arbitrary: k rule: follows.induct)
  case (3 room root prev c cs req resp sends)
  then show ?case by (cases k; cases resp) auto
qed simp_all

lemma follows_first:
  "follows room root prev cs sends \<Longrightarrow> sends \<noteq> [] \<Longrightarrow> fst (sends ! 0) = batch_request room root prev (cs ! 0)"
  by (induction room root prev cs sends rule: follows.induct) auto

lemma follows_link:
  "follows room root prev cs sends \<Longrightarrow> Suc k < length sends \<Longrightarrow>
   \<exists>i. snd (sends ! k) = Inr i \<and> fst (sends ! Suc k) = batch_request room root i (cs ! Suc k)"
proof (induction room root prev cs sends arbitrary: k rule: follows.induct)
  case (3 room root prev c cs req resp sends)
  show ?case
  proof (cases resp)
    case (Inl err)
    with 3 show ?thesis by simp
  next
    case (Inr i)
    with 3 have f: "follows room root i cs sends" by simp
    show ?thesis
    proof (cases k)
      case 0
      then show ?thesis using Inr f 3(3) follows_first [OF f] by (cases sends) auto
    next
      case (Suc j)
      then show ?thesis using 3(1) [OF Inr f, of j] 3(3) by simp
    qed
  qed
qed simp_all

lemma follows_fail_last:
  "follows room root prev cs sends \<Longrightarrow> k < length sends \<Longrightarrow> snd (sends ! k) = Inl err \<Longrightarrow>
   Suc k = length sends"
proof (induction room root prev cs sends arbitrary: k rule: follows.induct)
  case (3 room root prev c cs req resp sends)
  then show ?case by (cases k; cases resp) auto
qed simp_all

lemma follows_all_ok:
  "follows room root prev cs sends \<Longrightarrow> list_all (\<lambda>(req, resp). \<not> isl resp) sends \<Longrightarrow>
   length sends = length cs"
  by (induction room root prev cs sends rule: follows.induct) (auto split: sum.splits)

section \<open>The handler\<close>

lemma deliver_overflow:
  "maxResults < length results \<Longrightarrow>
   deliver client roomID eventID results s =
     ([Sent (SendMessageEvent roomID EventReaction (reactTooMany eventID))
         (fst (client (SendMessageEvent roomID EventReaction (reactTooMany eventID)) s)),
       Sent (SendMessageEvent roomID EventMessage (tooManyMsg eventID (length results)))
         (fst (client (SendMessageEvent roomID EventMessage (tooManyMsg eventID (length results)))
                (snd (client (SendMessageEvent roomID EventReaction (reactTooMany eventID)) s))))],
      snd (client (SendMessageEvent roomID EventMessage (tooManyMsg eventID (length results)))
                (snd (client (SendMessageEvent roomID EventReaction (reactTooMany eventID)) s))))"
  by (simp add: deliver_def Let_def split: prod.splits)

lemma deliver_success:
  "length results \<le> maxResults \<Longrightarrow>
   deliver client roomID eventID results s =
     (Sent (SendMessageEvent roomID EventReaction (reactOk eventID))
         (fst (client (SendMessageEvent roomID EventReaction (reactOk eventID)) s))
      # fst (send_batches client roomID eventID results 0 eventID
               (snd (client (SendMessageEvent roomID EventReaction (reactOk eventID)) s))),
      snd (send_batches client roomID eventID results 0 eventID
               (snd (client (SendMessageEvent roomID EventReaction (reactOk eventID)) s))))"
  by (simp add: deliver_def Let_def split: prod.splits)

lemma search_error_eq:
  "search_error client roomID err s =
     ([Sent (SendText roomID (''Search error: '' @ err))
         (fst (client (SendText roomID (''Search error: '' @ err)) s))],
      snd (client (SendText roomID (''Search error: '' @ err)) s))"
  by (simp add: search_error_def Let_def split: prod.splits)

lemma handleCommand_roms:
  "is_roms lib body \<Longrightarrow>
   handleCommand lib client db roomID body eventID s =
     Some (roms lib client db roomID (query_of lib body) eventID s)"
  by (auto simp: is_roms_def handleCommand_def query_of_def Let_def split: list.splits)

lemma handleCommand_other:
  "\<not> is_roms lib body \<Longrightarrow> handleCommand lib client db roomID body eventID s = Some (trace, s') \<Longrightarrow>
   trace = []"
  by (auto simp: is_roms_def handleCommand_def Let_def split: list.splits if_splits)

lemma roms_eq:
  "roms lib client db roomID (query_of lib body) eventID s =
     (case db (fst (compiled lib body)) (snd (compiled lib body)) of
        Inl err \<Rightarrow>
          (Queried (fst (compiled lib body)) (snd (compiled lib body)) (Inl err)
             # fst (search_error client roomID err s), snd (search_error client roomID err s))
      | Inr (scanned, Some err) \<Rightarrow>
          (Queried (fst (compiled lib body)) (snd (compiled lib body)) (Inr (scanned, Some err))
             # fst (search_error client roomID err s), snd (search_error client roomID err s))
      | Inr (scanned, None) \<Rightarrow>
          (Queried (fst (compiled lib body)) (snd (compiled lib body)) (Inr (scanned, None))
             # fst (deliver client roomID eventID (sort_Slice less_row (collect_rows scanned [])) s),
           snd (deliver client roomID eventID (sort_Slice less_row (collect_rows scanned [])) s)))"
  by (simp add: roms_def compiled_def split: prod.splits sum.splits option.splits)

lemma collect_rows_eq: "collect_rows scanned results = results @ [r. Inr r \<leftarrow> scanned]"
  by (induction scanned results rule: collect_rows.induct) simp_all

lemma collect_rows_Inr: "collect_rows (map Inr rs) [] = rs"
  by (simp add: collect_rows_eq) (induction rs; simp)

lemma send_batches_from_start:
  "follows roomID eventID eventID (chunks batchSize results)
     (batch_sends (fst (send_batches client roomID eventID results 0 eventID s)))
   \<and> map (\<lambda>(req, resp). Sent req resp) (batch_sends (fst (send_batches client roomID eventID results 0 eventID s)))
     = fst (send_batches client roomID eventID results 0 eventID s)"
  using send_batches_follows [of roomID eventID eventID 0 results client s] by simp

text \<open>The batch sends of any run of the handler have the shape of a run of the loop.\<close>

lemma batch_sends_deliver:
  "\<exists>cs. follows roomID eventID eventID cs (batch_sends (fst (deliver client roomID eventID results s)))"
proof (cases "maxResults < length results")
  case True
  then show ?thesis by (intro exI [of _ "[]"]) (simp add: deliver_overflow)
next
  case False
  then show ?thesis
    by (intro exI [of _ "chunks batchSize results"]) (simp add: deliver_success send_batches_from_start)
qed

lemma batch_sends_roms:
  "\<exists>cs. follows roomID eventID eventID cs
           (batch_sends (fst (roms lib client db roomID (query_of lib body) eventID s)))"
proof (cases "db (fst (compiled lib body)) (snd (compiled lib body))")
  case (Inl err)
  then show ?thesis by (intro exI [of _ "[]"]) (simp add: roms_eq search_error_eq)
next
  case (Inr rows)
  obtain scanned rowsErr where rows: "rows = (scanned, rowsErr)" by (cases rows)
  show ?thesis
  proof (cases rowsErr)
    case None
    then show ?thesis using Inr rows batch_sends_deliver by (simp add: roms_eq)
  next
    case (Some err)
    then show ?thesis using Inr rows by (intro exI [of _ "[]"]) (simp add: roms_eq search_error_eq)
  qed
qed

lemma batch_sends_handleCommand:
  assumes "handleCommand lib client db roomID body eventID s = Some (trace, s')"
  shows "\<exists>cs. follows roomID eventID eventID cs (batch_sends trace)"
proof (cases "is_roms lib body")
  case True
  then have "trace = fst (roms lib client db roomID (query_of lib body) eventID s)"
    using assms by (simp add: handleCommand_roms)
  then show ?thesis using batch_sends_roms by simp
next
  case False
  then have "trace = []" using assms by (rule handleCommand_other)
  then show ?thesis by (intro exI [of _ "[]"]) simp
qed

section \<open>The handler on a catalog\<close>

lemma limit_of_maxResults: "apply_limit (of_nat maxResults + 1) xs = take (Suc maxResults) xs"
  by (simp add: apply_limit_def maxResults_def)

lemma sqlite_compiled:
  "sqlite_Query fn catalog (fst (compiled lib body)) (snd (compiled lib body)) =
     Inr (map Inr (fetched lib fn catalog body), None)"
  by (simp add: compiled_def sqlite_Query_build limit_of_maxResults fetched_def matching_def)

lemma length_fetched:
  "length (fetched lib fn catalog body) = min (Suc maxResults) (length (matching lib fn catalog body))"
  by (simp add: fetched_def)

lemma handleCommand_sqlite:
  assumes "is_roms lib body"
  shows "handleCommand lib client (sqlite_Query fn catalog) roomID body eventID s =
     Some (Queried (fst (compiled lib body)) (snd (compiled lib body))
             (Inr (map Inr (fetched lib fn catalog body), None))
           # fst (deliver client roomID eventID (sort_Slice less_row (fetched lib fn catalog body)) s),
           snd (deliver client roomID eventID (sort_Slice less_row (fetched lib fn catalog body)) s))"
  by (simp add: handleCommand_roms [OF assms] roms_eq sqlite_compiled collect_rows_Inr)

text \<open>
  C1, as the code has it. For a \<open>!roms\<close> command on a catalog of which \<open>n\<close> records match,
  the handler queries once; if \<open>n\<close> is at most \<open>maxResults\<close> (so also when it is exactly
  \<open>maxResults\<close>) it sends the success reaction and then batch messages only; if \<open>n\<close> is
  \<open>maxResults + 1\<close> or more it sends the rejection reaction and one reply, and the count in
  the reply is the number of rows fetched, \<open>maxResults + 1\<close>, whatever \<open>n\<close> is.
\<close>

theorem overflow_boundary:
  assumes "is_roms lib body"
    and "n = length (matching lib fn catalog body)"
  shows "\<exists>answer sent s'.
     handleCommand lib client (sqlite_Query fn catalog) roomID body eventID s =
       Some (Queried (fst (compiled lib body)) (snd (compiled lib body)) answer # sent, s')
     \<and> (n \<le> maxResults \<longrightarrow>
          (\<exists>resp batches. sent = Sent (SendMessageEvent roomID EventReaction (reactOk eventID)) resp # batches
             \<and> map (\<lambda>(req, resp). Sent req resp) (batch_sends batches) = batches))
     \<and> (maxResults < n \<longrightarrow>
          (\<exists>resp1 resp2. sent =
             [Sent (SendMessageEvent roomID EventReaction (reactTooMany eventID)) resp1,
              Sent (SendMessageEvent roomID EventMessage (tooManyMsg eventID (maxResults + 1))) resp2]))"
proof -
  let ?results = "sort_Slice less_row (fetched lib fn catalog body)"
  have len: "length ?results = min (Suc maxResults) n"
    by (simp add: length_sort_Slice length_fetched assms(2))
  have small: "n \<le> maxResults \<longrightarrow>
      (\<exists>resp batches. fst (deliver client roomID eventID ?results s)
           = Sent (SendMessageEvent roomID EventReaction (reactOk eventID)) resp # batches
         \<and> map (\<lambda>(req, resp). Sent req resp) (batch_sends batches) = batches)"
    using len by (simp add: deliver_success send_batches_from_start)
  have large: "maxResults < n \<longrightarrow>
      (\<exists>resp1 resp2. fst (deliver client roomID eventID ?results s) =
             [Sent (SendMessageEvent roomID EventReaction (reactTooMany eventID)) resp1,
              Sent (SendMessageEvent roomID EventMessage (tooManyMsg eventID (maxResults + 1))) resp2])"
    using len by (simp add: deliver_overflow)
  show ?thesis
    using small large by (simp add: handleCommand_sqlite [OF assms(1)])
qed

text \<open>
  The command \<open>!roms\<close> without terms, on the ASCII instances: it matches every record.
\<close>

lemma is_roms_bare: "is_roms ascii_strings ''!roms''"
  by (simp add: is_roms_def ascii_strings_def ascii_space_def)

lemma matching_bare: "matching ascii_strings fn catalog ''!roms'' = catalog"
  by (simp add: matching_def query_of_def ascii_strings_def parseArgs_def scanner_init_def
      final_tokens_def spec_matches_def)

lemma length_catalog_of_size: "length (catalog_of_size n) = n"
  by (simp add: catalog_of_size_def)

lemma counting_client_ok: "counting_client [] req n = (Inr (''$'' @ itoa n), Suc n)"
  by (simp add: counting_client_def)

lemma itoa_small: "itoa 0 = ''0''" "itoa 1 = ''1''" "itoa 2 = ''2''" "itoa 3 = ''3''"
  by (simp_all add: itoa.simps digit_def)

lemma itoa_1001: "itoa 1001 = ''1001''"
  by (simp add: itoa.simps digit_def)

text \<open>
  C1 as stated fails: on a catalog of 1002 records, all matching, the reply reports 1001.
\<close>

theorem overflow_count_counterexample:
  "length (matching ascii_strings ascii_sql (catalog_of_size 1002) ''!roms'') = 1002
   \<and> map_option (sent_requests \<circ> fst)
       (handleCommand ascii_strings (counting_client []) (sqlite_Query ascii_sql (catalog_of_size 1002))
          ''!room:example.org'' ''!roms'' ''$trigger'' 0)
     = Some [SendMessageEvent ''!room:example.org'' EventReaction (reactTooMany ''$trigger''),
             SendMessageEvent ''!room:example.org'' EventMessage
               (JObject
                 [(''msgtype'', JString ''m.text''),
                  (''body'', JString ''Too many results: 1001''),
                  (''m.relates_to'', JObject
                    [(''m.in_reply_to'', JObject [(''event_id'', JString ''$trigger'')])])])]"
proof -
  let ?results = "sort_Slice less_row (fetched ascii_strings ascii_sql (catalog_of_size 1002) ''!roms'')"
  have len: "length ?results = 1001"
    by (simp add: length_sort_Slice length_fetched matching_bare length_catalog_of_size maxResults_def)
  then have "maxResults < length ?results" by (simp add: maxResults_def)
  from deliver_overflow [OF this, of "counting_client []" "''!room:example.org''" "''$trigger''" 0] len
  show ?thesis
    by (simp add: handleCommand_sqlite [OF is_roms_bare] matching_bare length_catalog_of_size
        tooManyMsg_def itoa_1001)
qed

text \<open>Catalogs of exactly \<open>maxResults\<close> and of \<open>maxResults + 1\<close> matching records.\<close>

theorem overflow_boundary_witness:
  "take 1 (sent_requests (fst (the
       (handleCommand ascii_strings (counting_client []) (sqlite_Query ascii_sql (catalog_of_size 1000))
          ''!room:example.org'' ''!roms'' ''$trigger'' 0))))
     = [SendMessageEvent ''!room:example.org'' EventReaction (reactOk ''$trigger'')]
   \<and> sent_requests (fst (the
       (handleCommand ascii_strings (counting_client []) (sqlite_Query ascii_sql (catalog_of_size 1001))
          ''!room:example.org'' ''!roms'' ''$trigger'' 0)))
     = [SendMessageEvent ''!room:example.org'' EventReaction (reactTooMany ''$trigger''),
        SendMessageEvent ''!room:example.org'' EventMessage (tooManyMsg ''$trigger'' 1001)]"
proof -
  have n1: "1000 = length (matching ascii_strings ascii_sql (catalog_of_size 1000) ''!roms'')"
    and n2: "1001 = length (matching ascii_strings ascii_sql (catalog_of_size 1001) ''!roms'')"
    by (simp_all add: matching_bare length_catalog_of_size)
  show ?thesis
    using overflow_boundary [OF is_roms_bare n1, of "counting_client []" "''!room:example.org''" "''$trigger''" 0]
      overflow_boundary [OF is_roms_bare n2, of "counting_client []" "''!room:example.org''" "''$trigger''" 0]
    by (auto simp: maxResults_def)
qed

section \<open>The delivery\<close>

text \<open>
  C4. In every run of the handler, each batch message has the trigger event as its thread
  root; the first one replies to the trigger event; and whenever a batch message is
  followed by another, its send has succeeded and the next one replies to the event that
  this send returned.
\<close>

theorem thread_linkage:
  assumes "handleCommand lib client db roomID body eventID s = Some (trace, s')"
    and "sends = batch_sends trace"
  shows "(\<forall>k<length sends. thread_root (fst (sends ! k)) = Some (JString eventID))
     \<and> (sends \<noteq> [] \<longrightarrow> reply_target (fst (sends ! 0)) = Some (JString eventID))
     \<and> (\<forall>k. Suc k < length sends \<longrightarrow>
          (\<exists>i. snd (sends ! k) = Inr i \<and> reply_target (fst (sends ! Suc k)) = Some (JString i)))"
proof -
  obtain cs where f: "follows roomID eventID eventID cs sends"
    using batch_sends_handleCommand [OF assms(1)] assms(2) by auto
  have "\<forall>k<length sends. thread_root (fst (sends ! k)) = Some (JString eventID)"
    using follows_nth [OF f] by fastforce
  moreover have "sends \<noteq> [] \<longrightarrow> reply_target (fst (sends ! 0)) = Some (JString eventID)"
    using follows_first [OF f] by simp
  moreover have "\<forall>k. Suc k < length sends \<longrightarrow>
          (\<exists>i. snd (sends ! k) = Inr i \<and> reply_target (fst (sends ! Suc k)) = Some (JString i))"
    using follows_link [OF f] by fastforce
  ultimately show ?thesis by blast
qed

text \<open>
  C5. In every run of the handler, a batch message whose send fails is the last batch
  message sent: the failed batch is not sent again and no later batch is sent.
\<close>

theorem no_send_after_failure:
  assumes "handleCommand lib client db roomID body eventID s = Some (trace, s')"
    and "sends = batch_sends trace"
  shows "\<forall>k<length sends. isl (snd (sends ! k)) \<longrightarrow> Suc k = length sends"
proof -
  obtain cs where f: "follows roomID eventID eventID cs sends"
    using batch_sends_handleCommand [OF assms(1)] assms(2) by auto
  show ?thesis using follows_fail_last [OF f] by (auto simp: isl_def)
qed

text \<open>
  C6. For a \<open>!roms\<close> command, if the query call fails with an error, the handler makes that
  one query and sends one text message, the error reply, and nothing else: no reaction,
  no batch, no second query. It does the same when the cursor reports an error after the
  rows. If the query succeeds with no rows, it sends the success reaction (and no batch,
  there being none).
\<close>

theorem query_failure_reply:
  assumes "is_roms lib body"
  shows "(\<forall>err. db (fst (compiled lib body)) (snd (compiled lib body)) = Inl err \<longrightarrow>
            handleCommand lib client db roomID body eventID s =
              Some ([Queried (fst (compiled lib body)) (snd (compiled lib body)) (Inl err),
                     Sent (SendText roomID (''Search error: '' @ err))
                       (fst (client (SendText roomID (''Search error: '' @ err)) s))],
                    snd (client (SendText roomID (''Search error: '' @ err)) s)))
     \<and> (\<forall>scanned err. db (fst (compiled lib body)) (snd (compiled lib body)) = Inr (scanned, Some err) \<longrightarrow>
            handleCommand lib client db roomID body eventID s =
              Some ([Queried (fst (compiled lib body)) (snd (compiled lib body)) (Inr (scanned, Some err)),
                     Sent (SendText roomID (''Search error: '' @ err))
                       (fst (client (SendText roomID (''Search error: '' @ err)) s))],
                    snd (client (SendText roomID (''Search error: '' @ err)) s)))
     \<and> (db (fst (compiled lib body)) (snd (compiled lib body)) = Inr ([], None) \<longrightarrow>
            handleCommand lib client db roomID body eventID s =
              Some ([Queried (fst (compiled lib body)) (snd (compiled lib body)) (Inr ([], None)),
                     Sent (SendMessageEvent roomID EventReaction (reactOk eventID))
                       (fst (client (SendMessageEvent roomID EventReaction (reactOk eventID)) s))],
                    snd (client (SendMessageEvent roomID EventReaction (reactOk eventID)) s)))"
  by (simp add: handleCommand_roms [OF assms] roms_eq search_error_eq sort_Slice_def
      deliver_success send_batches_done)

lemma handleCommand_rows:
  assumes "handleCommand lib client db roomID body eventID s =
             Some (Queried sql args (Inr (scanned, None)) # sent, s')"
  shows "sent = fst (deliver client roomID eventID (sort_Slice less_row (collect_rows scanned [])) s)"
proof (cases "is_roms lib body")
  case True
  then show ?thesis using assms
    by (auto simp: handleCommand_roms roms_eq split: sum.splits option.splits)
next
  case False
  then show ?thesis using handleCommand_other [OF False assms] by simp
qed

text \<open>
  C8. In every run of the handler whose query returned rows, what is sent after the query
  is the delivery of one list of results: the rows that scanned, all of them and no
  others, with any two consecutive results in non-decreasing order of (section, console,
  file) under the byte order of strings: the sections ascend, or they are equal and the
  consoles ascend, or both are equal and the files do not descend.
\<close>

theorem results_sorted:
  assumes "handleCommand lib client db roomID body eventID s =
             Some (Queried sql args (Inr (scanned, None)) # sent, s')"
  shows "let results = sort_Slice less_row (collect_rows scanned []) in
     sent = fst (deliver client roomID eventID results s)
     \<and> length results = length (collect_rows scanned [])
     \<and> set results = set (collect_rows scanned [])
     \<and> (\<forall>i. Suc i < length results \<longrightarrow>
          (Section (results ! i) < Section (results ! Suc i)
           \<or> (Section (results ! i) = Section (results ! Suc i)
               \<and> (Console (results ! i) < Console (results ! Suc i)
                    \<or> (Console (results ! i) = Console (results ! Suc i)
                        \<and> File (results ! i) \<le> File (results ! Suc i))))))"
  using handleCommand_rows [OF assms] sort_Slice_ordered [OF refl, of "collect_rows scanned []"]
  unfolding Let_def by blast

lemma plain_body_batch_request [simp]:
  "plain_body (batch_request roomID eventID prev batch) = Some (JString (render_plain batch []))"
  by (simp add: plain_body_def batch_request_def messageContent_def content_of_def)

lemma html_body_batch_request [simp]:
  "html_body (batch_request roomID eventID prev batch) = Some (JString (render_html batch []))"
  by (simp add: html_body_def batch_request_def messageContent_def content_of_def)

text \<open>
  C7. In a run whose query returned rows within the limit, the batches are the
  consecutive pieces of at most \<open>batchSize\<close> results, none empty, which put together are
  the results; the batch messages sent carry, in order, the bodies of these batches, and
  all of them are sent when no send fails. Results of size \<open>2 * batchSize\<close> make two batches
  of \<open>batchSize\<close>, results of size \<open>batchSize + 1\<close> make one of \<open>batchSize\<close> and one of 1.
\<close>

theorem batch_partition:
  assumes "handleCommand lib client db roomID body eventID s =
             Some (Queried sql args (Inr (scanned, None)) # sent, s')"
    and "results = sort_Slice less_row (collect_rows scanned [])"
    and "length results \<le> maxResults"
    and "sends = batch_sends sent"
  shows "concat (chunks batchSize results) = results
     \<and> list_all (\<lambda>b. b \<noteq> [] \<and> length b \<le> batchSize) (chunks batchSize results)
     \<and> length sends \<le> length (chunks batchSize results)
     \<and> (\<forall>k<length sends.
          plain_body (fst (sends ! k)) = Some (JString (render_plain (chunks batchSize results ! k) []))
          \<and> html_body (fst (sends ! k)) = Some (JString (render_html (chunks batchSize results ! k) [])))
     \<and> (list_all (\<lambda>(req, resp). \<not> isl resp) sends \<longrightarrow> length sends = length (chunks batchSize results))
     \<and> (length results = 2 * batchSize \<longrightarrow> map length (chunks batchSize results) = [batchSize, batchSize])
     \<and> (length results = batchSize + 1 \<longrightarrow> map length (chunks batchSize results) = [batchSize, 1])"
proof -
  have "sent = fst (deliver client roomID eventID results s)"
    using handleCommand_rows [OF assms(1)] assms(2) by simp
  then have f: "follows roomID eventID eventID (chunks batchSize results) sends"
    using assms(3,4) by (simp add: deliver_success send_batches_from_start)
  have "\<forall>k<length sends.
          plain_body (fst (sends ! k)) = Some (JString (render_plain (chunks batchSize results ! k) []))
          \<and> html_body (fst (sends ! k)) = Some (JString (render_html (chunks batchSize results ! k) []))"
    using follows_nth [OF f] by fastforce
  moreover have "length sends \<le> length (chunks batchSize results)"
    using f by (rule follows_length)
  moreover have "list_all (\<lambda>(req, resp). \<not> isl resp) sends \<longrightarrow> length sends = length (chunks batchSize results)"
    using follows_all_ok [OF f] by blast
  ultimately show ?thesis
    using concat_chunks [of batchSize results] chunks_bounded [OF batchSize_pos, of results]
      chunks_two_full [OF batchSize_pos, of results] chunks_full_and_one [OF batchSize_pos, of results]
    by blast
qed

section \<open>Runs of the model\<close>

text \<open>Runs of the delivery with the counting client, the loop unfolded.\<close>

lemma counting_client_step:
  "counting_client failing req n = (if n \<in> set failing then Inl ''timeout'' else Inr (''$'' @ itoa n), Suc n)"
  by (simp add: counting_client_def)

lemma itoa_Suc: "itoa (Suc 0) = ''1''" "itoa (Suc (Suc 0)) = ''2''"
  by (simp_all add: itoa.simps digit_def)

lemma deliver_two_batches:
  assumes "length results = 101"
  shows "deliver (counting_client []) room ev results 0 =
     ([Sent (SendMessageEvent room EventReaction (reactOk ev)) (Inr ''$0''),
       Sent (batch_request room ev ev (batch_at results 0)) (Inr ''$1''),
       Sent (batch_request room ev ''$1'' (batch_at results 100)) (Inr ''$2'')], 3)"
proof -
  have le: "length results \<le> maxResults" using assms by (simp add: maxResults_def)
  show ?thesis
    by (simp add: deliver_success [OF le] send_batches.simps [of "counting_client []"] assms
        counting_client_def itoa_small itoa_Suc batchSize_def)
qed

lemma deliver_second_fails:
  assumes "length results = 201"
  shows "deliver (counting_client [2]) room ev results 0 =
     ([Sent (SendMessageEvent room EventReaction (reactOk ev)) (Inr ''$0''),
       Sent (batch_request room ev ev (batch_at results 0)) (Inr ''$1''),
       Sent (batch_request room ev ''$1'' (batch_at results 100)) (Inl ''timeout'')], 3)"
proof -
  have le: "length results \<le> maxResults" using assms by (simp add: maxResults_def)
  show ?thesis
    by (simp add: deliver_success [OF le] send_batches.simps [of "counting_client [2]"] assms
        counting_client_def itoa_small itoa_Suc batchSize_def)
qed

lemma length_results_bare:
  "n \<le> 1001 \<Longrightarrow> length (sort_Slice less_row (fetched ascii_strings ascii_sql (catalog_of_size n) ''!roms'')) = n"
  by (simp add: length_sort_Slice length_fetched matching_bare length_catalog_of_size maxResults_def)

text \<open>A run of two batches, on a catalog of 101 records.\<close>

theorem thread_linkage_witness:
  "map (\<lambda>(req, resp). (thread_root req, reply_target req, resp))
     (batch_sends (fst (the
        (handleCommand ascii_strings (counting_client []) (sqlite_Query ascii_sql (catalog_of_size 101))
           ''!room:example.org'' ''!roms'' ''$trigger'' 0))))
   = [(Some (JString ''$trigger''), Some (JString ''$trigger''), Inr ''$1''),
      (Some (JString ''$trigger''), Some (JString ''$1''), Inr ''$2'')]"
proof -
  let ?run = "handleCommand ascii_strings (counting_client []) (sqlite_Query ascii_sql (catalog_of_size 101))
           ''!room:example.org'' ''!roms'' ''$trigger'' 0"
  have run: "?run = Some (fst (the ?run), snd (the ?run))"
    by (simp add: handleCommand_sqlite [OF is_roms_bare])
  have sends: "map snd (batch_sends (fst (the ?run))) = [Inr ''$1'', Inr ''$2'']"
    by (simp add: handleCommand_sqlite [OF is_roms_bare] deliver_two_batches length_results_bare)
  then have len: "length (batch_sends (fst (the ?run))) = 2"
    by (metis length_map length_Cons list.size(3) numeral_2_eq_2)
  from thread_linkage [OF run refl] sends len show ?thesis
    by (simp add: handleCommand_sqlite [OF is_roms_bare] deliver_two_batches length_results_bare)
qed

text \<open>
  A catalog of 201 records makes three batches; the send of the second one fails, and
  the third is not sent.
\<close>

theorem no_send_after_failure_witness:
  "map snd (batch_sends (fst (the
        (handleCommand ascii_strings (counting_client [2]) (sqlite_Query ascii_sql (catalog_of_size 201))
           ''!room:example.org'' ''!roms'' ''$trigger'' 0))))
   = [Inr ''$1'', Inl ''timeout'']
   \<and> length (chunks batchSize (sort_Slice less_row
        (fetched ascii_strings ascii_sql (catalog_of_size 201) ''!roms''))) = 3"
proof -
  let ?run = "handleCommand ascii_strings (counting_client [2]) (sqlite_Query ascii_sql (catalog_of_size 201))
           ''!room:example.org'' ''!roms'' ''$trigger'' 0"
  let ?results = "sort_Slice less_row (fetched ascii_strings ascii_sql (catalog_of_size 201) ''!roms'')"
  have run: "?run = Some (fst (the ?run), snd (the ?run))"
    by (simp add: handleCommand_sqlite [OF is_roms_bare])
  have len: "length ?results = 201" by (simp add: length_results_bare)
  have 1: "?results \<noteq> []" "drop 100 ?results \<noteq> []" "drop 100 (drop 100 ?results) \<noteq> []"
    "drop 100 (drop 100 (drop 100 ?results)) = []"
    using len by auto
  have three: "length (chunks batchSize ?results) = 3"
    using 1 by (simp add: batchSize_def chunks_unfold)
  from no_send_after_failure [OF run refl] three show ?thesis
    by (simp add: handleCommand_sqlite [OF is_roms_bare] deliver_second_fails length_results_bare)
qed

text \<open>
  The command \<open>!roms mario\<close>: on a database that fails, on one whose cursor breaks, and on
  an empty catalog.
\<close>

lemma is_roms_mario: "is_roms ascii_strings ''!roms mario''"
  by (simp add: is_roms_def ascii_strings_def ascii_space_def)

lemma compiled_mario:
  "compiled ascii_strings ''!roms mario'' =
     (''SELECT section, console, file, rawurl FROM files WHERE (LOWER(section) LIKE ? OR LOWER(console) LIKE ? OR LOWER(file) LIKE ?) ORDER BY section, console, file LIMIT ?'',
      [ArgText ''%mario%'', ArgText ''%mario%'', ArgText ''%mario%'', ArgInt 1001])"
  by (simp add: compiled_def query_of_def ascii_strings_def ascii_space_def parseArgs_def
      scanner_init_def scan_byte_def final_tokens_def buildSQLQuery_def like_pattern_def
      ascii_lower_def select_from_def positive_clause_def order_by_limit_def maxResults_def Let_def)

theorem query_failure_reply_witness:
  "handleCommand ascii_strings (counting_client []) failing_db ''!room:example.org'' ''!roms mario'' ''$trigger'' 0
   = Some ([Queried
             ''SELECT section, console, file, rawurl FROM files WHERE (LOWER(section) LIKE ? OR LOWER(console) LIKE ? OR LOWER(file) LIKE ?) ORDER BY section, console, file LIMIT ?''
             [ArgText ''%mario%'', ArgText ''%mario%'', ArgText ''%mario%'', ArgInt 1001]
             (Inl ''database is locked''),
            Sent (SendText ''!room:example.org'' ''Search error: database is locked'') (Inr ''$0'')], 1)
   \<and> handleCommand ascii_strings (counting_client []) broken_cursor_db ''!room:example.org'' ''!roms mario'' ''$trigger'' 0
   = Some ([Queried
             ''SELECT section, console, file, rawurl FROM files WHERE (LOWER(section) LIKE ? OR LOWER(console) LIKE ? OR LOWER(file) LIKE ?) ORDER BY section, console, file LIMIT ?''
             [ArgText ''%mario%'', ArgText ''%mario%'', ArgText ''%mario%'', ArgInt 1001]
             (Inr ([], Some ''disk I/O error'')),
            Sent (SendText ''!room:example.org'' ''Search error: disk I/O error'') (Inr ''$0'')], 1)
   \<and> handleCommand ascii_strings (counting_client []) (sqlite_Query ascii_sql []) ''!room:example.org'' ''!roms mario'' ''$trigger'' 0
   = Some ([Queried
             ''SELECT section, console, file, rawurl FROM files WHERE (LOWER(section) LIKE ? OR LOWER(console) LIKE ? OR LOWER(file) LIKE ?) ORDER BY section, console, file LIMIT ?''
             [ArgText ''%mario%'', ArgText ''%mario%'', ArgText ''%mario%'', ArgInt 1001]
             (Inr ([], None)),
            Sent (SendMessageEvent ''!room:example.org'' EventReaction (reactOk ''$trigger'')) (Inr ''$0'')], 1)"
proof -
  have fails: "failing_db (fst (compiled ascii_strings ''!roms mario'')) (snd (compiled ascii_strings ''!roms mario''))
      = Inl ''database is locked''"
    by (simp add: failing_db_def)
  have breaks: "broken_cursor_db (fst (compiled ascii_strings ''!roms mario'')) (snd (compiled ascii_strings ''!roms mario''))
      = Inr ([], Some ''disk I/O error'')"
    by (simp add: broken_cursor_db_def)
  have empty: "sqlite_Query ascii_sql [] (fst (compiled ascii_strings ''!roms mario'')) (snd (compiled ascii_strings ''!roms mario''))
      = Inr ([], None)"
    by (simp add: sqlite_compiled fetched_def matching_def)
  show ?thesis
    using query_failure_reply [OF is_roms_mario, where db = failing_db and client = "counting_client []"
        and roomID = "''!room:example.org''" and eventID = "''$trigger''" and s = 0]
      query_failure_reply [OF is_roms_mario, where db = broken_cursor_db and client = "counting_client []"
        and roomID = "''!room:example.org''" and eventID = "''$trigger''" and s = 0]
      query_failure_reply [OF is_roms_mario, where db = "sqlite_Query ascii_sql []"
        and client = "counting_client []" and roomID = "''!room:example.org''"
        and eventID = "''$trigger''" and s = 0]
      fails breaks empty
    by (simp add: compiled_mario counting_client_def itoa_small)
qed

text \<open>Catalogs of \<open>batchSize + 1\<close> and of \<open>2 * batchSize\<close> records.\<close>

theorem batch_partition_witness:
  "map length (chunks batchSize
      (sort_Slice less_row (fetched ascii_strings ascii_sql (catalog_of_size 101) ''!roms''))) = [100, 1]
   \<and> map length (chunks batchSize
      (sort_Slice less_row (fetched ascii_strings ascii_sql (catalog_of_size 200) ''!roms''))) = [100, 100]
   \<and> length (batch_sends (fst (the
        (handleCommand ascii_strings (counting_client []) (sqlite_Query ascii_sql (catalog_of_size 101))
           ''!room:example.org'' ''!roms'' ''$trigger'' 0)))) = 2"
proof -
  let ?r1 = "sort_Slice less_row (fetched ascii_strings ascii_sql (catalog_of_size 101) ''!roms'')"
  let ?r2 = "sort_Slice less_row (fetched ascii_strings ascii_sql (catalog_of_size 200) ''!roms'')"
  have run1: "handleCommand ascii_strings (counting_client []) (sqlite_Query ascii_sql (catalog_of_size 101))
           ''!room:example.org'' ''!roms'' ''$trigger'' 0 =
      Some (Queried (fst (compiled ascii_strings ''!roms'')) (snd (compiled ascii_strings ''!roms''))
              (Inr (map Inr (fetched ascii_strings ascii_sql (catalog_of_size 101) ''!roms''), None))
            # fst (deliver (counting_client []) ''!room:example.org'' ''$trigger'' ?r1 0),
            snd (deliver (counting_client []) ''!room:example.org'' ''$trigger'' ?r1 0))"
    by (rule handleCommand_sqlite [OF is_roms_bare])
  have run2: "handleCommand ascii_strings (counting_client []) (sqlite_Query ascii_sql (catalog_of_size 200))
           ''!room:example.org'' ''!roms'' ''$trigger'' 0 =
      Some (Queried (fst (compiled ascii_strings ''!roms'')) (snd (compiled ascii_strings ''!roms''))
              (Inr (map Inr (fetched ascii_strings ascii_sql (catalog_of_size 200) ''!roms''), None))
            # fst (deliver (counting_client []) ''!room:example.org'' ''$trigger'' ?r2 0),
            snd (deliver (counting_client []) ''!room:example.org'' ''$trigger'' ?r2 0))"
    by (rule handleCommand_sqlite [OF is_roms_bare])
  have r1: "?r1 = sort_Slice less_row (collect_rows (map Inr (fetched ascii_strings ascii_sql (catalog_of_size 101) ''!roms'')) [])"
    and r2: "?r2 = sort_Slice less_row (collect_rows (map Inr (fetched ascii_strings ascii_sql (catalog_of_size 200) ''!roms'')) [])"
    by (simp_all add: collect_rows_Inr)
  have l1: "length ?r1 = 101" and l2: "length ?r2 = 200" by (simp_all add: length_results_bare)
  have le1: "length ?r1 \<le> maxResults" and le2: "length ?r2 \<le> maxResults"
    by (simp_all add: l1 l2 maxResults_def)
  have ok: "list_all (\<lambda>(req, resp). \<not> isl resp)
      (batch_sends (fst (deliver (counting_client []) ''!room:example.org'' ''$trigger'' ?r1 0)))"
    by (simp add: deliver_two_batches [OF l1])
  have c1: "map length (chunks batchSize ?r1) = [100, 1]"
    and all1: "length (batch_sends (fst (deliver (counting_client []) ''!room:example.org'' ''$trigger'' ?r1 0)))
      = length (chunks batchSize ?r1)"
    using batch_partition [OF run1 r1 le1 refl] ok l1 by (simp_all add: batchSize_def)
  have c2: "map length (chunks batchSize ?r2) = [100, 100]"
    using batch_partition [OF run2 r2 le2 refl] l2 by (simp add: batchSize_def)
  have "length (chunks batchSize ?r1) = length (map length (chunks batchSize ?r1))" by simp
  also have "\<dots> = 2" by (simp only: c1) simp
  finally have n1: "length (chunks batchSize ?r1) = 2" .
  show ?thesis using c1 c2 all1 n1 by (simp add: run1)
qed

text \<open>
  A run on a cursor of three rows out of order: the one batch message lists them in
  order.
\<close>

theorem results_sorted_witness:
  "map (plain_body \<circ> fst) (batch_sends (tl (fst (the
      (handleCommand ascii_strings (counting_client []) (canned_db unsorted_rows)
         ''!room:example.org'' ''!roms'' ''$trigger'' 0)))))
   = [Some (JString (''a - x - 3'' @ [CHR 0x0A] @ ''a - y - 2'' @ [CHR 0x0A] @ ''b - x - 1'' @ [CHR 0x0A]))]"
proof -
  let ?run = "handleCommand ascii_strings (counting_client []) (canned_db unsorted_rows)
         ''!room:example.org'' ''!roms'' ''$trigger'' 0"
  have run: "?run = Some (Queried (fst (compiled ascii_strings ''!roms'')) (snd (compiled ascii_strings ''!roms''))
                            (Inr (unsorted_rows, None)) # tl (fst (the ?run)), snd (the ?run))"
    by (simp add: handleCommand_roms [OF is_roms_bare] roms_eq canned_db_def)
  have sorted: "sort_Slice less_row (collect_rows unsorted_rows []) =
      [\<lparr>Section = ''a'', Console = ''x'', File = ''3'', Rawurl = ''u3''\<rparr>,
       \<lparr>Section = ''a'', Console = ''y'', File = ''2'', Rawurl = ''u2''\<rparr>,
       \<lparr>Section = ''b'', Console = ''x'', File = ''1'', Rawurl = ''u1''\<rparr>]"
    by (simp add: unsorted_rows_def sort_Slice_def less_row_def)
  have "tl (fst (the ?run)) =
      fst (deliver (counting_client []) ''!room:example.org'' ''$trigger''
             (sort_Slice less_row (collect_rows unsorted_rows [])) 0)"
    using results_sorted [OF run] by (simp add: Let_def)
  then show ?thesis
    by (simp add: sorted deliver_success maxResults_def send_batches.simps [of "counting_client []"]
        counting_client_def batchSize_def batch_at_def plain_line_def)
qed

end
